theory Spec2Isabelle
  imports Complex_Main "HOL-Library.Sublist"
begin

section \<open>pyradi.ryfiles: file input/output helpers\<close>

text \<open>
  A shallow embedding of \<^verbatim>\<open>src/pyradi/ryfiles.py\<close>. Python exceptions are values of
  \<open>pyerror\<close>; a function that may raise returns \<open>pyerror + 'a\<close> with \<open>Inl\<close> the exception.
  A \<^verbatim>\<open>ValueError\<close> carries the message of the library routine that raised it.
\<close>

datatype pyerror =
    IOError
  | TypeError
  | ValueError string
  | ZeroDivisionError
  | AttributeError
  | IndexError
  | StopIteration
  | ReError

text \<open>
  The state of one path of the file system. \<open>Missing\<close>: no such file (opening for reading
  raises \<^verbatim>\<open>IOError\<close>, opening for writing creates it). \<open>Denied\<close>: \<^verbatim>\<open>open\<close> raises
  \<^verbatim>\<open>IOError\<close> in every mode. \<open>ReadFault\<close>: \<^verbatim>\<open>open\<close> succeeds and the first read raises
  \<^verbatim>\<open>IOError\<close>. \<open>Holds xs\<close>: a readable file whose content is \<open>xs\<close> (characters for
  a text file, elements of the requested type for a raw binary file).
\<close>

datatype 'e fstate = Missing | Denied | ReadFault | Holds "'e list"

type_synonym 'e filesys = "string \<Rightarrow> 'e fstate"

subsection \<open>cleanFilename\<close>

text \<open>
  \<^verbatim>\<open>return filter(lambda c: c not in removestring, sourcestring)\<close>.
  Python 2's \<^verbatim>\<open>filter\<close> on a string returns a string; \<^verbatim>\<open>c not in removestring\<close>
  for a one-character \<open>c\<close> is membership of the character. Both strings are taken
  over one character type.
\<close>

definition cleanFilename :: "string \<Rightarrow> string \<Rightarrow> string" where
  "cleanFilename sourcestring removestring =
     filter (\<lambda>c. c \<notin> set removestring) sourcestring"

definition default_removestring :: string where
  "default_removestring = '' %:/,.'' @ [CHR 0x5C] @ ''[]''"

subsection \<open>saveHeaderArrayTextFile\<close>

text \<open>\<^verbatim>\<open>str.split(sep)\<close> for a one-character separator: never an empty list.\<close>

fun split_on :: "char \<Rightarrow> string \<Rightarrow> string list" where
  "split_on sep [] = [[]]"
| "split_on sep (c # cs) =
     (if c = sep then [] # split_on sep cs
      else (case split_on sep cs of
              [] \<Rightarrow> [[c]]
            | w # ws \<Rightarrow> (c # w) # ws))"

text \<open>
  \<^verbatim>\<open>open(filename, 'wt')\<close>: raises \<^verbatim>\<open>IOError\<close> on a path that cannot be opened,
  otherwise the file exists and is empty.
\<close>

definition open_wt :: "char filesys \<Rightarrow> string \<Rightarrow> pyerror + char filesys" where
  "open_wt fs filename =
     (case fs filename of
        Denied \<Rightarrow> Inl IOError
      | _ \<Rightarrow> Inr (fs(filename := Holds [])))"

text \<open>\<^verbatim>\<open>comment + line + '\n'\<close>: \<^verbatim>\<open>None + str\<close> raises \<^verbatim>\<open>TypeError\<close>.\<close>

definition prefix_line :: "string option \<Rightarrow> string \<Rightarrow> pyerror + string" where
  "prefix_line comment line =
     (case comment of
        None \<Rightarrow> Inl TypeError
      | Some c \<Rightarrow> Inr (c @ line @ [CHR 0x0A]))"

text \<open>
  \<^verbatim>\<open>for line in header.split('\n'): file.write(comment+line+'\n')\<close>, the text written so
  far being threaded through; an exception leaves what was written before it.
\<close>

fun write_header :: "string option \<Rightarrow> string list \<Rightarrow> string \<Rightarrow> (pyerror + unit) \<times> string" where
  "write_header comment [] buf = (Inr (), buf)"
| "write_header comment (line # rest) buf =
     (case prefix_line comment line of
        Inl e \<Rightarrow> (Inl e, buf)
      | Inr s \<Rightarrow> write_header comment rest (buf @ s))"

text \<open>
  \<^verbatim>\<open>numpy.savetxt\<close> is not part of the module: \<open>savetxt dataArray delimiter\<close> is the text
  it writes, or the exception it raises. The result is the outcome of the call and
  the file system it leaves.
\<close>

definition saveHeaderArrayTextFile ::
  "('arr \<Rightarrow> string option \<Rightarrow> pyerror + string) \<Rightarrow> char filesys \<Rightarrow> string \<Rightarrow> 'arr \<Rightarrow>
   string option \<Rightarrow> string option \<Rightarrow> string option \<Rightarrow> (pyerror + unit) \<times> char filesys" where
  "saveHeaderArrayTextFile savetxt fs filename dataArray header comment delimiter =
     (case open_wt fs filename of
        Inl e \<Rightarrow> (Inl e, fs)
      | Inr fs1 \<Rightarrow>
          (case (case header of
                   None \<Rightarrow> (Inr (), [])
                 | Some h \<Rightarrow> write_header comment (split_on (CHR 0x0A) h) []) of
             (Inl e, buf) \<Rightarrow> (Inl e, fs1(filename := Holds buf))
           | (Inr u, buf) \<Rightarrow>
               (case savetxt dataArray delimiter of
                  Inl e \<Rightarrow> (Inl e, fs1(filename := Holds buf))
                | Inr txt \<Rightarrow> (Inr (), fs1(filename := Holds (buf @ txt))))))"

subsection \<open>readRawFrames\<close>

text \<open>
  A numpy array: its shape and its elements in row-major order.
\<close>

record 'e ndarray =
  shape :: "nat list"
  elems :: "'e list"

text \<open>
  A file system that holds the single file \<open>name\<close> with content \<open>xs\<close>.
\<close>

definition single_file :: "string \<Rightarrow> 'e list \<Rightarrow> 'e filesys" where
  "single_file name xs = (\<lambda>p. if p = name then Holds xs else Missing)"

text \<open>
  An open binary file: the elements not yet read, or a file whose reads raise.
\<close>

datatype 'e handle = Faulty | Stream "'e list"

definition open_rb :: "'e filesys \<Rightarrow> string \<Rightarrow> pyerror + 'e handle" where
  "open_rb fs fname =
     (case fs fname of
        Missing \<Rightarrow> Inl IOError
      | Denied \<Rightarrow> Inl IOError
      | ReadFault \<Rightarrow> Inr Faulty
      | Holds xs \<Rightarrow> Inr (Stream xs))"

text \<open>
  \<^verbatim>\<open>numpy.fromfile(fin, vartype, count)\<close>: reads \<open>count\<close> elements, fewer when the file
  ends first, all the remaining ones when \<open>count\<close> is negative; returns them and the
  file advanced.
\<close>

definition fromfile :: "'e handle \<Rightarrow> int \<Rightarrow> pyerror + ('e list \<times> 'e handle)" where
  "fromfile fin count =
     (case fin of
        Faulty \<Rightarrow> Inl IOError
      | Stream rest \<Rightarrow>
          (if count < 0 then Inr (rest, Stream [])
           else Inr (take (nat count) rest, Stream (drop (nat count) rest))))"

text \<open>\<^verbatim>\<open>max(loadFrames)\<close>; \<^verbatim>\<open>ValueError\<close> on an empty list.\<close>

fun py_max :: "'a::linorder list \<Rightarrow> pyerror + 'a" where
  "py_max [] = Inl (ValueError ''max() arg is an empty sequence'')"
| "py_max (x # xs) = Inr (fold max xs x)"

text \<open>
  The body of the loop over the frames:
  \<^verbatim>\<open>if data == None: data = dataframe  else: data = numpy.concatenate((data, dataframe))\<close>.
  The accumulator is \<open>None\<close> until a frame has been retained; for an array,
  \<^verbatim>\<open>data == None\<close> is false in the numpy the module was written for.
\<close>

definition retain :: "'e list option \<Rightarrow> 'e list \<Rightarrow> 'e list option" where
  "retain data dataframe =
     (case data of
        None \<Rightarrow> Some dataframe
      | Some d \<Rightarrow> Some (d @ dataframe))"

text \<open>
  \<^verbatim>\<open>for frame in range(0, lastframe+1, 1)\<close>: every frame is read, the requested ones
  are retained.
\<close>

fun read_frames ::
  "'e handle \<Rightarrow> int \<Rightarrow> int list \<Rightarrow> int list \<Rightarrow> 'e list option \<Rightarrow> pyerror + 'e list option" where
  "read_frames fin framesize loadFrames [] data = Inr data"
| "read_frames fin framesize loadFrames (frame # rest) data =
     (case fromfile fin framesize of
        Inl e \<Rightarrow> Inl e
      | Inr (dataframe, fin') \<Rightarrow>
          read_frames fin' framesize loadFrames rest
            (if frame \<in> set loadFrames then retain data dataframe else data))"

text \<open>The \<^verbatim>\<open>try\<close> block of the branch that loads all frames.\<close>

definition load_all :: "'e filesys \<Rightarrow> string \<Rightarrow> pyerror + 'e list option" where
  "load_all fs fname =
     (case open_rb fs fname of
        Inl e \<Rightarrow> Inl e
      | Inr fin \<Rightarrow>
          (case fromfile fin (- 1) of
             Inl e \<Rightarrow> Inl e
           | Inr (data, fin') \<Rightarrow> Inr (Some data)))"

text \<open>The \<^verbatim>\<open>try\<close> block of the branch that loads the requested frames.\<close>

definition load_requested ::
  "'e filesys \<Rightarrow> string \<Rightarrow> int \<Rightarrow> int \<Rightarrow> int list \<Rightarrow> pyerror + 'e list option" where
  "load_requested fs fname rows cols loadFrames =
     (let framesize = rows * cols in
      case py_max loadFrames of
        Inl e \<Rightarrow> Inl e
      | Inr lastframe \<Rightarrow>
          (case open_rb fs fname of
             Inl e \<Rightarrow> Inl e
           | Inr fin \<Rightarrow> read_frames fin framesize loadFrames [0..lastframe] None))"

text \<open>
  Python floats. The module starts with \<^verbatim>\<open>from __future__ import division\<close>, so
  \<^verbatim>\<open>data.size / (rows * cols)\<close> is a true division with a float result. A float is
  modelled by the rational it denotes, and the rounding to the nearest double by a
  function \<open>fl\<close> applied after each operation and conversion; the model is a function
  of \<open>fl\<close>. \<open>exact_upto fl B\<close> says that \<open>fl\<close> leaves the integers up to \<open>B\<close> (in absolute
  value) as they are, which the double format does for \<open>B\<close> up to \<open>2 ^ 53\<close>.
\<close>

definition exact_upto :: "(rat \<Rightarrow> rat) \<Rightarrow> int \<Rightarrow> bool" where
  "exact_upto fl B \<longleftrightarrow> (\<forall>n::int. \<bar>n\<bar> \<le> B \<longrightarrow> fl (of_int n) = of_int n)"

definition to_float :: "(rat \<Rightarrow> rat) \<Rightarrow> int \<Rightarrow> rat" where
  "to_float fl n = fl (of_int n)"

definition true_div :: "(rat \<Rightarrow> rat) \<Rightarrow> int \<Rightarrow> int \<Rightarrow> pyerror + rat" where
  "true_div fl a b = (if b = 0 then Inl ZeroDivisionError else Inr (fl (of_int a / of_int b)))"

definition float_mul_int :: "(rat \<Rightarrow> rat) \<Rightarrow> rat \<Rightarrow> int \<Rightarrow> rat" where
  "float_mul_int fl x n = fl (x * to_float fl n)"

text \<open>\<^verbatim>\<open>int(x)\<close> of a float: truncation towards zero.\<close>

definition int_of_float :: "rat \<Rightarrow> int" where
  "int_of_float x = (if 0 \<le> x then \<lfloor>x\<rfloor> else \<lceil>x\<rceil>)"

text \<open>
  \<^verbatim>\<open>data.reshape(frames, rows, cols)\<close> on a flat array. The numpy the module was
  written for converts a float dimension to an integer by truncation (later versions
  raise \<^verbatim>\<open>TypeError\<close> for any float). One dimension may be \<open>-1\<close> and is then
  inferred; the new shape must hold exactly the elements of the array.
\<close>

definition reshape :: "'e list \<Rightarrow> int list \<Rightarrow> pyerror + 'e ndarray" where
  "reshape data dims =
     (let unknown = filter (\<lambda>d. d = - 1) dims;
          known = filter (\<lambda>d. d \<noteq> - 1) dims;
          size = int (length data)
      in if length unknown > 1
           then Inl (ValueError ''can only specify one unknown dimension'')
         else if \<exists>d \<in> set known. d < 0
           then Inl (ValueError ''negative dimensions not allowed'')
         else if unknown = []
           then (if prod_list known = size
                   then Inr \<lparr>shape = map nat dims, elems = data\<rparr>
                 else Inl (ValueError ''total size of new array must be unchanged''))
         else (if prod_list known = 0 \<or> size mod prod_list known \<noteq> 0
                 then Inl (ValueError ''total size of new array must be unchanged'')
               else Inr \<lparr>shape = map (\<lambda>d. if d = - 1 then nat (size div prod_list known) else nat d) dims,
                         elems = data\<rparr>))"

text \<open>
  The code after the two branches: \<^verbatim>\<open>frames = data.size / (rows * cols)\<close>,
  \<^verbatim>\<open>sizeCheck = frames * rows * cols\<close>, the reshape when \<^verbatim>\<open>sizeCheck == data.size\<close>,
  and \<^verbatim>\<open>return int(frames), rawShaped\<close>. \<^verbatim>\<open>data.size\<close> on \<^verbatim>\<open>None\<close> raises
  \<^verbatim>\<open>AttributeError\<close>.
\<close>

definition shape_frames ::
  "(rat \<Rightarrow> rat) \<Rightarrow> 'e list option \<Rightarrow> int \<Rightarrow> int \<Rightarrow> pyerror + (int \<times> 'e ndarray option)" where
  "shape_frames fl data rows cols =
     (case data of
        None \<Rightarrow> Inl AttributeError
      | Some d \<Rightarrow>
          (case true_div fl (int (length d)) (rows * cols) of
             Inl e \<Rightarrow> Inl e
           | Inr frames \<Rightarrow>
               (let sizeCheck = float_mul_int fl (float_mul_int fl frames rows) cols in
                if sizeCheck = of_int (int (length d))
                  then (case reshape d [int_of_float frames, rows, cols] of
                          Inl e \<Rightarrow> Inl e
                        | Inr rawShaped \<Rightarrow> Inr (int_of_float frames, Some rawShaped))
                else Inr (int_of_float frames, None))))"

text \<open>
  \<open>readRawFrames\<close>: \<^verbatim>\<open>frames = 0\<close>, \<^verbatim>\<open>rawShaped = None\<close>; an \<^verbatim>\<open>IOError\<close> in either
  \<^verbatim>\<open>try\<close> block returns \<^verbatim>\<open>int(frames), rawShaped\<close>; every other exception propagates.
\<close>

definition readRawFrames ::
  "(rat \<Rightarrow> rat) \<Rightarrow> 'e filesys \<Rightarrow> string \<Rightarrow> int \<Rightarrow> int \<Rightarrow> int list \<Rightarrow>
   pyerror + (int \<times> 'e ndarray option)" where
  "readRawFrames fl fs fname rows cols loadFrames =
     (case (if loadFrames = [] then load_all fs fname
            else load_requested fs fname rows cols loadFrames) of
        Inl IOError \<Rightarrow> Inr (0, None)
      | Inl e \<Rightarrow> Inl e
      | Inr data \<Rightarrow> shape_frames fl data rows cols)"

text \<open>The frame at position \<open>i\<close> of a flat sequence of frames of \<open>sz\<close> elements.\<close>

definition frame_at :: "'e list \<Rightarrow> nat \<Rightarrow> nat \<Rightarrow> 'e list" where
  "frame_at xs sz i = take sz (drop (i * sz) xs)"


subsection \<open>Text tables: \<^verbatim>\<open>numpy.loadtxt\<close>\<close>

text \<open>\<^verbatim>\<open>f.readlines()\<close>: the lines of a text, each with its line end.\<close>

fun readlines :: "string \<Rightarrow> string list" where
  "readlines [] = []"
| "readlines (c # cs) =
     (if c = CHR 0x0A then [c] # readlines cs
      else (case readlines cs of
              [] \<Rightarrow> [[c]]
            | l # ls \<Rightarrow> (c # l) # ls))"

definition is_space :: "char \<Rightarrow> bool" where
  "is_space c \<longleftrightarrow> c \<in> set [CHR 0x20, CHR 0x09, CHR 0x0A, CHR 0x0D, CHR 0x0B, CHR 0x0C]"

text \<open>
  \<^verbatim>\<open>str.split()\<close> without a separator: the maximal runs of characters that are not
  white space; \<open>w\<close> is the run being read.
\<close>

fun split_ws :: "string \<Rightarrow> string \<Rightarrow> string list" where
  "split_ws w [] = (if w = [] then [] else [w])"
| "split_ws w (c # cs) =
     (if is_space c then (if w = [] then split_ws [] cs else w # split_ws [] cs)
      else split_ws (w @ [c]) cs)"

definition py_split :: "string \<Rightarrow> string list" where
  "py_split s = split_ws [] s"

text \<open>\<^verbatim>\<open>str.split(sep)\<close> for a non-empty separator string; \<open>w\<close> is the field being read.\<close>

function split_sep :: "string \<Rightarrow> string \<Rightarrow> string \<Rightarrow> string list" where
  "split_sep sep w [] = [w]"
| "split_sep sep w (c # cs) =
     (if sep \<noteq> [] \<and> take (length sep) (c # cs) = sep
        then w # split_sep sep [] (drop (length sep) (c # cs))
      else split_sep sep (w @ [c]) cs)"
  by pat_completeness auto
termination
  by (relation "measure (\<lambda>(sep, w, rest). length rest)") auto

text \<open>\<^verbatim>\<open>s.strip('\r\n')\<close>.\<close>

definition strip_crlf :: "string \<Rightarrow> string" where
  "strip_crlf s =
     (let nl = (\<lambda>c. c = CHR 0x0D \<or> c = CHR 0x0A)
      in rev (dropWhile nl (rev (dropWhile nl s))))"

text \<open>
  The line splitter of \<^verbatim>\<open>loadtxt\<close>: the comment is cut off (everything from the first
  occurrence of the comment marker; no marker when \<open>comments\<close> is \<open>None\<close>), line ends
  are stripped, and the rest is split at the delimiter (at white space when
  \<open>delimiter\<close> is \<open>None\<close>). An empty delimiter raises.
\<close>

definition split_line :: "string option \<Rightarrow> string option \<Rightarrow> string \<Rightarrow> pyerror + string list" where
  "split_line comments delimiter line =
     (let l = strip_crlf (case comments of
                            None \<Rightarrow> line
                          | Some m \<Rightarrow> if m = [] then line else hd (split_sep m [] line))
      in if l = [] then Inr []
         else (case delimiter of
                 None \<Rightarrow> Inr (py_split l)
               | Some d \<Rightarrow> if d = [] then Inl (ValueError ''empty separator'')
                          else Inr (split_sep d [] l)))"

text \<open>\<^verbatim>\<open>vals[i]\<close>: a negative index counts from the end.\<close>

definition py_index :: "'a list \<Rightarrow> int \<Rightarrow> pyerror + 'a" where
  "py_index xs i =
     (if 0 \<le> i \<and> i < int (length xs) then Inr (xs ! nat i)
      else if i < 0 \<and> - int (length xs) \<le> i then Inr (xs ! nat (int (length xs) + i))
      else Inl IndexError)"

text \<open>A list comprehension whose body may raise: the first exception wins.\<close>

fun map_raise :: "('a \<Rightarrow> pyerror + 'b) \<Rightarrow> 'a list \<Rightarrow> pyerror + 'b list" where
  "map_raise f [] = Inr []"
| "map_raise f (x # xs) =
     (case f x of
        Inl e \<Rightarrow> Inl e
      | Inr y \<Rightarrow> (case map_raise f xs of Inl e \<Rightarrow> Inl e | Inr ys \<Rightarrow> Inr (y # ys)))"

text \<open>
  The conversion of one token, \<open>conv\<close>, stands for Python's \<^verbatim>\<open>float\<close>: \<open>None\<close> when it
  raises \<^verbatim>\<open>ValueError\<close>.
\<close>

definition convert :: "(string \<Rightarrow> 'v option) \<Rightarrow> string \<Rightarrow> pyerror + 'v" where
  "convert conv tok =
     (case conv tok of
        None \<Rightarrow> Inl (ValueError ''could not convert string to float'')
      | Some v \<Rightarrow> Inr v)"

text \<open>
  One line of the table: no row for a line without values, otherwise the selected
  columns (all of them when \<open>usecols\<close> is empty), converted.
\<close>

definition parse_line ::
  "(string \<Rightarrow> 'v option) \<Rightarrow> string option \<Rightarrow> string option \<Rightarrow> int list \<Rightarrow> string \<Rightarrow>
   pyerror + 'v list option" where
  "parse_line conv comments delimiter usecols line =
     (case split_line comments delimiter line of
        Inl e \<Rightarrow> Inl e
      | Inr vals \<Rightarrow>
          if vals = [] then Inr None
          else (case (if usecols = [] then Inr vals else map_raise (py_index vals) usecols) of
                  Inl e \<Rightarrow> Inl e
                | Inr sel \<Rightarrow>
                    (case map_raise (convert conv) sel of
                       Inl e \<Rightarrow> Inl e
                     | Inr items \<Rightarrow> Inr (Some items))))"

fun parse_rows ::
  "(string \<Rightarrow> 'v option) \<Rightarrow> string option \<Rightarrow> string option \<Rightarrow> int list \<Rightarrow> string list \<Rightarrow>
   pyerror + 'v list list" where
  "parse_rows conv comments delimiter usecols [] = Inr []"
| "parse_rows conv comments delimiter usecols (line # rest) =
     (case parse_line conv comments delimiter usecols line of
        Inl e \<Rightarrow> Inl e
      | Inr None \<Rightarrow> parse_rows conv comments delimiter usecols rest
      | Inr (Some items) \<Rightarrow>
          (case parse_rows conv comments delimiter usecols rest of
             Inl e \<Rightarrow> Inl e
           | Inr X \<Rightarrow> Inr (items # X)))"

text \<open>
  A numpy array of at most two dimensions, as \<^verbatim>\<open>loadtxt\<close> returns it: a scalar
  (no dimension), a vector, or a matrix given by its rows.
\<close>

datatype 'v table = Scalar 'v | Vector "'v list" | Matrix "'v list list"

text \<open>
  \<^verbatim>\<open>np.array(X)\<close> followed by \<^verbatim>\<open>np.squeeze\<close> (\<^verbatim>\<open>ndmin=0\<close>): the rows must have one
  length; axes of length one are removed.
\<close>

definition squeeze_rows :: "'v list list \<Rightarrow> pyerror + 'v table" where
  "squeeze_rows X =
     (case X of
        [] \<Rightarrow> Inr (Vector [])
      | r # rs \<Rightarrow>
          if \<exists>r' \<in> set rs. length r' \<noteq> length r
            then Inl (ValueError ''Wrong number of columns'')
          else if length X = 1 \<and> length r = 1 then Inr (Scalar (hd r))
          else if length X = 1 then Inr (Vector r)
          else if length r = 1 then Inr (Vector (map hd X))
          else Inr (Matrix X))"

text \<open>\<^verbatim>\<open>X.T\<close>: the transpose, which changes matrices only.\<close>

definition transpose_table :: "'v table \<Rightarrow> 'v table" where
  "transpose_table a = (case a of Matrix X \<Rightarrow> Matrix (transpose X) | _ \<Rightarrow> a)"

text \<open>
  \<^verbatim>\<open>numpy.loadtxt(fname, comments, delimiter, skiprows, usecols, unpack)\<close>. Skipping a
  line that does not exist raises \<^verbatim>\<open>StopIteration\<close>.
\<close>

definition loadtxt ::
  "(string \<Rightarrow> 'v option) \<Rightarrow> char filesys \<Rightarrow> string \<Rightarrow> string option \<Rightarrow> string option \<Rightarrow>
   nat \<Rightarrow> int list \<Rightarrow> bool \<Rightarrow> pyerror + 'v table" where
  "loadtxt conv fs fname comments delimiter skiprows usecols unpack =
     (case fs fname of
        Holds content \<Rightarrow>
          (let lines = readlines content in
           if length lines < skiprows then Inl StopIteration
           else (case parse_rows conv comments delimiter usecols (drop skiprows lines) of
                   Inl e \<Rightarrow> Inl e
                 | Inr X \<Rightarrow>
                     (case squeeze_rows X of
                        Inl e \<Rightarrow> Inl e
                      | Inr a \<Rightarrow> Inr (if unpack then transpose_table a else a))))
      | _ \<Rightarrow> Inl IOError)"

text \<open>
  A conversion for running the model on examples: it reads an unsigned decimal
  integer as Python's \<^verbatim>\<open>float\<close> does, and rejects every other token.
\<close>

definition digit_val :: "char \<Rightarrow> nat option" where
  "digit_val c =
     (let n = (of_char c :: nat) in if 48 \<le> n \<and> n \<le> 57 then Some (n - 48) else None)"

fun digits_val :: "nat \<Rightarrow> string \<Rightarrow> nat option" where
  "digits_val acc [] = Some acc"
| "digits_val acc (c # cs) =
     (case digit_val c of None \<Rightarrow> None | Some d \<Rightarrow> digits_val (10 * acc + d) cs)"

definition float_of_digits :: "string \<Rightarrow> rat option" where
  "float_of_digits tok = (if tok = [] then None else map_option of_nat (digits_val 0 tok))"

subsection \<open>read2DLookupTable\<close>

record 'v lookup_table =
  xVec :: "'v list"
  yVec :: "'v list"
  tdata :: "'v list list"
  xlabel :: string
  ylabel :: string
  title :: string

text \<open>
  \<^verbatim>\<open>xlabel, ylabel, title = lines[0].split()\<close>: \<^verbatim>\<open>IndexError\<close> without a first line,
  \<^verbatim>\<open>ValueError\<close> unless there are exactly three tokens.
\<close>

definition read_labels :: "string list \<Rightarrow> pyerror + (string \<times> string \<times> string)" where
  "read_labels lines =
     (case lines of
        [] \<Rightarrow> Inl IndexError
      | first # _ \<Rightarrow>
          (case py_split first of
             [a, b, c] \<Rightarrow> Inr (a, b, c)
           | toks \<Rightarrow> if length toks < 3 then Inl (ValueError ''need more values to unpack'')
                     else Inl (ValueError ''too many values to unpack'')))"

text \<open>
  \<^verbatim>\<open>aArray[1:, 0]\<close>, \<^verbatim>\<open>aArray[0, 1:]\<close> and \<^verbatim>\<open>aArray[1:, 1:]\<close>: two indices on an array
  of fewer than two dimensions raise \<^verbatim>\<open>IndexError\<close>, as does an index beyond an axis.
\<close>

definition column0_below :: "'v table \<Rightarrow> pyerror + 'v list" where
  "column0_below a =
     (case a of
        Matrix X \<Rightarrow> map_raise (\<lambda>r. py_index r 0) (tl X)
      | _ \<Rightarrow> Inl IndexError)"

definition row0_right :: "'v table \<Rightarrow> pyerror + 'v list" where
  "row0_right a =
     (case a of
        Matrix X \<Rightarrow> (case py_index X 0 of Inl e \<Rightarrow> Inl e | Inr r \<Rightarrow> Inr (tl r))
      | _ \<Rightarrow> Inl IndexError)"

definition block_below_right :: "'v table \<Rightarrow> pyerror + 'v list list" where
  "block_below_right a =
     (case a of
        Matrix X \<Rightarrow> Inr (map tl (tl X))
      | _ \<Rightarrow> Inl IndexError)"

definition read2DLookupTable ::
  "(string \<Rightarrow> 'v option) \<Rightarrow> char filesys \<Rightarrow> string \<Rightarrow> pyerror + 'v lookup_table" where
  "read2DLookupTable conv fs filename =
     (case fs filename of
        Holds content \<Rightarrow>
          (case read_labels (readlines content) of
             Inl e \<Rightarrow> Inl e
           | Inr (xl, yl, t) \<Rightarrow>
               (case loadtxt conv fs filename (Some ''#'') None 1 [] False of
                  Inl e \<Rightarrow> Inl e
                | Inr aArray \<Rightarrow>
                    (case column0_below aArray of
                       Inl e \<Rightarrow> Inl e
                     | Inr xv \<Rightarrow>
                         (case row0_right aArray of
                            Inl e \<Rightarrow> Inl e
                          | Inr yv \<Rightarrow>
                              (case block_below_right aArray of
                                 Inl e \<Rightarrow> Inl e
                               | Inr d \<Rightarrow>
                                   Inr \<lparr>xVec = xv, yVec = yv, tdata = d,
                                        xlabel = xl, ylabel = yl, title = t\<rparr>)))))
      | _ \<Rightarrow> Inl IOError)"

subsection \<open>loadColumnTextFile\<close>

text \<open>
  Float arrays are modelled over the rationals. The module divides floats in two
  places (the slope of the interpolant, and the normalisation); numpy does not raise on
  a division by zero but stores an infinity or a NaN. \<open>Finite a\<close> is an array all of
  whose entries are finite; \<open>NonFinite shp\<close> is an array of shape \<open>shp\<close> in which a
  division by zero has left an entry that is not finite (once there, such an entry
  stays through the later divisions; the entries are not modelled further).
\<close>

datatype floats = Finite "rat table" | NonFinite "nat list"

definition shape_of :: "'v table \<Rightarrow> nat list" where
  "shape_of a =
     (case a of
        Scalar v \<Rightarrow> []
      | Vector v \<Rightarrow> [length v]
      | Matrix X \<Rightarrow> [length X, (case X of [] \<Rightarrow> 0 | r # _ \<Rightarrow> length r)])"

definition flatten :: "'v table \<Rightarrow> 'v list" where
  "flatten a = (case a of Scalar v \<Rightarrow> [v] | Vector v \<Rightarrow> v | Matrix X \<Rightarrow> concat X)"

text \<open>\<^verbatim>\<open>scale * array\<close>.\<close>

definition scale_table :: "rat \<Rightarrow> rat table \<Rightarrow> rat table" where
  "scale_table k a =
     (case a of
        Scalar v \<Rightarrow> Scalar (k * v)
      | Vector v \<Rightarrow> Vector (map ((*) k) v)
      | Matrix X \<Rightarrow> Matrix (map (map ((*) k)) X))"

text \<open>
  \<^verbatim>\<open>numpy.searchsorted(x, key)\<close>: the binary search of numpy, which returns the number
  of entries below \<open>key\<close> when \<open>x\<close> is sorted.
\<close>

function bsearch_left :: "rat list \<Rightarrow> rat \<Rightarrow> nat \<Rightarrow> nat \<Rightarrow> nat" where
  "bsearch_left x key imin imax =
     (if imin < imax
        then (let imid = imin + (imax - imin) div 2
              in if x ! imid < key then bsearch_left x key (imid + 1) imax
                 else bsearch_left x key imin imid)
      else imin)"
  by pat_completeness auto
termination
  by (relation "measure (\<lambda>(x, key, imin, imax). imax - imin)") auto

definition searchsorted :: "rat list \<Rightarrow> rat \<Rightarrow> nat" where
  "searchsorted x key = bsearch_left x key 0 (length x)"

text \<open>
  \<^verbatim>\<open>scipy.interpolate.interp1d(x, y)\<close> with its defaults (linear, last axis,
  \<^verbatim>\<open>bounds_error=True\<close>), in the version the module was written for, which takes \<open>x\<close>
  as it is given. The constructor checks the dimensions and lengths.
\<close>

definition interp1d_init :: "rat table \<Rightarrow> rat table \<Rightarrow> pyerror + (rat list \<times> rat list list)" where
  "interp1d_init x y =
     (case x of
        Vector xs \<Rightarrow>
          (case y of
             Scalar _ \<Rightarrow> Inl (ValueError ''the y array must have at least one dimension.'')
           | _ \<Rightarrow>
               (let Y = (case y of Vector ys \<Rightarrow> [ys] | Matrix Y \<Rightarrow> Y | Scalar v \<Rightarrow> []);
                    len_y = (case y of Vector ys \<Rightarrow> length ys | _ \<Rightarrow> hd (rev (shape_of y)))
                in if length xs \<noteq> len_y
                     then Inl (ValueError ''x and y arrays must be equal in length along interpolation axis.'')
                   else if length xs < 2
                     then Inl (ValueError ''x and y arrays must have at least 2 entries'')
                   else Inr (xs, Y)))
      | _ \<Rightarrow> Inl (ValueError ''the x array must have exactly one dimension.''))"

text \<open>
  The bounds check of the call: a new abscissa below \<^verbatim>\<open>x[0]\<close> or above \<^verbatim>\<open>x[-1]\<close>
  raises.
\<close>

definition check_bounds :: "rat list \<Rightarrow> rat list \<Rightarrow> pyerror + unit" where
  "check_bounds xs x_new =
     (if \<exists>t \<in> set x_new. t < hd xs
        then Inl (ValueError ''A value in x_new is below the interpolation range.'')
      else if \<exists>t \<in> set x_new. last xs < t
        then Inl (ValueError ''A value in x_new is above the interpolation range.'')
      else Inr ())"

text \<open>
  The linear interpolant at one point: the index found by \<open>searchsorted\<close>, clipped to
  \<open>1 .. len(x) - 1\<close>, selects the interval; \<open>None\<close> when the interval has width zero
  (the slope is then a division by zero).
\<close>

definition interval_index :: "rat list \<Rightarrow> rat \<Rightarrow> nat" where
  "interval_index xs t = min (max (searchsorted xs t) 1) (length xs - 1)"

definition linear_at :: "rat list \<Rightarrow> rat list \<Rightarrow> rat \<Rightarrow> rat option" where
  "linear_at xs ys t =
     (let hi = interval_index xs t; lo = hi - 1;
          x_lo = xs ! lo; x_hi = xs ! hi; y_lo = ys ! lo; y_hi = ys ! hi
      in if x_hi - x_lo = 0 then None
         else Some ((y_hi - y_lo) / (x_hi - x_lo) * (t - x_lo) + y_lo))"

definition interp1d :: "rat table \<Rightarrow> rat table \<Rightarrow> rat list \<Rightarrow> pyerror + floats" where
  "interp1d x y x_new =
     (case interp1d_init x y of
        Inl e \<Rightarrow> Inl e
      | Inr (xs, Y) \<Rightarrow>
          (case check_bounds xs x_new of
             Inl e \<Rightarrow> Inl e
           | Inr _ \<Rightarrow>
               (let out = map (\<lambda>ys. map (linear_at xs ys) x_new) Y;
                    shp = (case y of Vector _ \<Rightarrow> [length x_new] | _ \<Rightarrow> [length Y, length x_new])
                in if \<exists>row \<in> set out. None \<in> set row then Inr (NonFinite shp)
                   else (case y of
                           Vector _ \<Rightarrow> Inr (Finite (Vector (map the (hd out))))
                         | _ \<Rightarrow> Inr (Finite (Matrix (map (map the) out)))))))"

text \<open>
  The first part of \<open>loadColumnTextFile\<close>, up to \<^verbatim>\<open>interpValue\<close>: the two calls of
  \<^verbatim>\<open>loadtxt\<close> (column 0, then the columns \<open>loadCol\<close>, both with \<^verbatim>\<open>unpack=True\<close>), the
  scaling, and the interpolation when \<open>abscissaOut\<close> is given
  (\<^verbatim>\<open>abscissaOut.reshape(-1,)\<close> is the list of its entries).
\<close>

definition load_interpValue ::
  "(string \<Rightarrow> rat option) \<Rightarrow> char filesys \<Rightarrow> string \<Rightarrow> int list \<Rightarrow> string option \<Rightarrow> nat \<Rightarrow>
   string option \<Rightarrow> rat \<Rightarrow> rat \<Rightarrow> rat list option \<Rightarrow> pyerror + floats" where
  "load_interpValue conv fs filename loadCol comment skiprows delimiter
                    abscissaScale ordinateScale abscissaOut =
     (case loadtxt conv fs filename comment delimiter skiprows [0] True of
        Inl e \<Rightarrow> Inl e
      | Inr a0 \<Rightarrow>
          (case loadtxt conv fs filename comment delimiter skiprows loadCol True of
             Inl e \<Rightarrow> Inl e
           | Inr o0 \<Rightarrow>
               (let abscissa = scale_table abscissaScale a0;
                    ordinate = scale_table ordinateScale o0
                in case abscissaOut of
                     None \<Rightarrow> Inr (Finite ordinate)
                   | Some x_new \<Rightarrow> interp1d abscissa ordinate x_new)))"

text \<open>
  \<^verbatim>\<open>interpValue /= numpy.max(interpValue, axis=0)\<close>. The maximum is taken along the
  first axis: over all entries of a vector, and for a matrix over the rows, position
  by position. A zero maximum is divided by as any other. The maximum of an empty
  vector raises.
\<close>

definition divide_by_max :: "rat table \<Rightarrow> pyerror + floats" where
  "divide_by_max a =
     (case a of
        Scalar v \<Rightarrow> if v = 0 then Inr (NonFinite []) else Inr (Finite (Scalar (v / v)))
      | Vector v \<Rightarrow>
          (case py_max v of
             Inl e \<Rightarrow> Inl (ValueError ''zero-size array to reduction operation maximum which has no identity'')
           | Inr m \<Rightarrow> if m = 0 then Inr (NonFinite [length v])
                     else Inr (Finite (Vector (map (\<lambda>y. y / m) v))))
      | Matrix X \<Rightarrow>
          (let ms = map (\<lambda>col. fold max (tl col) (hd col)) (transpose X)
           in if 0 \<in> set ms then Inr (NonFinite (shape_of a))
              else Inr (Finite (Matrix (map (\<lambda>row. map (\<lambda>(y, m). y / m) (zip row ms)) X)))))"

text \<open>
  \<^verbatim>\<open>interpValue.reshape(len(loadCol), -1).T\<close>, on the number \<open>sz\<close> of entries: the
  shape of the result, or the exception of the reshape.
\<close>

definition reshape_T_shape :: "nat \<Rightarrow> nat \<Rightarrow> pyerror + (nat \<times> nat)" where
  "reshape_T_shape n sz =
     (if n = 0 \<or> sz mod n \<noteq> 0
        then Inl (ValueError ''total size of new array must be unchanged'')
      else Inr (sz div n, n))"

definition reshape_T :: "nat \<Rightarrow> floats \<Rightarrow> pyerror + floats" where
  "reshape_T n a =
     (case a of
        NonFinite shp \<Rightarrow>
          (case reshape_T_shape n (prod_list shp) of
             Inl e \<Rightarrow> Inl e
           | Inr (r, c) \<Rightarrow> Inr (NonFinite [r, c]))
      | Finite t \<Rightarrow>
          (case reshape_T_shape n (length (flatten t)) of
             Inl e \<Rightarrow> Inl e
           | Inr (r, c) \<Rightarrow>
               Inr (Finite (Matrix (map (\<lambda>i. map (\<lambda>j. flatten t ! (j * r + i)) [0..<c]) [0..<r])))))"

text \<open>
  \<open>loadColumnTextFile\<close>. The test \<^verbatim>\<open>interpValue.ndim > 2\<close> never holds: the arrays
  have at most two dimensions.
\<close>

definition loadColumnTextFile ::
  "(string \<Rightarrow> rat option) \<Rightarrow> char filesys \<Rightarrow> string \<Rightarrow> int list \<Rightarrow> string option \<Rightarrow> int \<Rightarrow>
   nat \<Rightarrow> string option \<Rightarrow> rat \<Rightarrow> rat \<Rightarrow> rat list option \<Rightarrow> pyerror + floats" where
  "loadColumnTextFile conv fs filename loadCol comment normalize' skiprows delimiter
                      abscissaScale ordinateScale abscissaOut =
     (case load_interpValue conv fs filename loadCol comment skiprows delimiter
             abscissaScale ordinateScale abscissaOut of
        Inl e \<Rightarrow> Inl e
      | Inr interpValue \<Rightarrow>
          (case (if normalize' \<noteq> 0
                   then (case interpValue of
                           Finite a \<Rightarrow> divide_by_max a
                         | NonFinite shp \<Rightarrow> Inr (NonFinite shp))
                 else Inr interpValue) of
             Inl e \<Rightarrow> Inl e
           | Inr normalized \<Rightarrow> reshape_T (length loadCol) normalized))"

subsection \<open>listFiles\<close>

text \<open>
  Regular expressions. \<^verbatim>\<open>re.compile\<close> is not part of the module: a compiled pattern
  is a value of \<open>regex\<close>, and \<open>denotes r w\<close> says that the pattern \<open>r\<close> matches exactly the
  string \<open>w\<close> (\<open>AnyChar\<close> is the dot, which does not match a line feed).
\<close>

datatype regex =
    NoString
  | EmptyString
  | Chr char
  | AnyChar
  | Alt regex regex
  | Seq regex regex
  | Star regex

inductive denotes :: "regex \<Rightarrow> string \<Rightarrow> bool" where
  d_eps: "denotes EmptyString []"
| d_chr: "denotes (Chr c) [c]"
| d_any: "c \<noteq> CHR 0x0A \<Longrightarrow> denotes AnyChar [c]"
| d_altl: "denotes r w \<Longrightarrow> denotes (Alt r s) w"
| d_altr: "denotes s w \<Longrightarrow> denotes (Alt r s) w"
| d_seq: "denotes r u \<Longrightarrow> denotes s v \<Longrightarrow> denotes (Seq r s) (u @ v)"
| d_star0: "denotes (Star r) []"
| d_star: "denotes r u \<Longrightarrow> denotes (Star r) v \<Longrightarrow> denotes (Star r) (u @ v)"

text \<open>
  Matching by derivatives: \<open>re_fullmatch\<close> decides whether the pattern matches the whole
  string, and \<open>re_search\<close> is \<^verbatim>\<open>regex.search(name)\<close> taken as a truth value: whether
  the pattern matches at some position of the string.
\<close>

fun nullable :: "regex \<Rightarrow> bool" where
  "nullable NoString = False"
| "nullable EmptyString = True"
| "nullable (Chr c) = False"
| "nullable AnyChar = False"
| "nullable (Alt r s) = (nullable r \<or> nullable s)"
| "nullable (Seq r s) = (nullable r \<and> nullable s)"
| "nullable (Star r) = True"

fun deriv :: "char \<Rightarrow> regex \<Rightarrow> regex" where
  "deriv a NoString = NoString"
| "deriv a EmptyString = NoString"
| "deriv a (Chr c) = (if a = c then EmptyString else NoString)"
| "deriv a AnyChar = (if a = CHR 0x0A then NoString else EmptyString)"
| "deriv a (Alt r s) = Alt (deriv a r) (deriv a s)"
| "deriv a (Seq r s) =
     (if nullable r then Alt (Seq (deriv a r) s) (deriv a s) else Seq (deriv a r) s)"
| "deriv a (Star r) = Seq (deriv a r) (Star r)"

definition re_fullmatch :: "regex \<Rightarrow> string \<Rightarrow> bool" where
  "re_fullmatch r s = nullable (fold deriv s r)"

definition re_search :: "regex \<Rightarrow> string \<Rightarrow> bool" where
  "re_search r s = list_ex (re_fullmatch r) (sublists s)"

text \<open>
  A directory tree: a file, or a directory with its entries in the order of
  \<^verbatim>\<open>os.listdir\<close>.
\<close>

datatype node = File string | Dir string "node list"

fun node_name :: "node \<Rightarrow> string" where
  "node_name (File name) = name"
| "node_name (Dir name entries) = name"

fun is_file :: "node \<Rightarrow> bool" where
  "is_file (File name) = True"
| "is_file (Dir name entries) = False"

text \<open>\<^verbatim>\<open>os.path.join(a, b)\<close> on a POSIX system.\<close>

definition path_join :: "string \<Rightarrow> string \<Rightarrow> string" where
  "path_join a b =
     (if b \<noteq> [] \<and> hd b = CHR ''/'' then b
      else if a = [] \<or> last a = CHR ''/'' then a @ b
      else a @ ''/'' @ b)"

text \<open>The \<^verbatim>\<open>Bunch\<close> object \<^verbatim>\<open>arg\<close> that carries the arguments and the results.\<close>

record bunch =
  recurse :: int
  pattern_list :: "string list"
  return_folders :: int
  results :: "string list"

text \<open>
  The loop \<^verbatim>\<open>for pattern in arg.pattern_list\<close> for one name: whether some pattern
  matches, each pattern being compiled when it is tried (\<open>re_compile\<close> stands for
  \<^verbatim>\<open>re.compile\<close>, which raises on a malformed pattern; \<open>fnmatch\<close> for
  \<^verbatim>\<open>fnmatch.fnmatch\<close>). The loop stops at the first match.
\<close>

fun match_patterns ::
  "(string \<Rightarrow> pyerror + regex) \<Rightarrow> (string \<Rightarrow> string \<Rightarrow> bool) \<Rightarrow> bool \<Rightarrow> string \<Rightarrow> string list \<Rightarrow>
   pyerror + bool" where
  "match_patterns re_compile fnmatch useRegex name [] = Inr False"
| "match_patterns re_compile fnmatch useRegex name (pattern # rest) =
     (if useRegex
        then (case re_compile pattern of
                Inl e \<Rightarrow> Inl e
              | Inr regex \<Rightarrow>
                  if re_search regex name then Inr True
                  else match_patterns re_compile fnmatch useRegex name rest)
      else if fnmatch name pattern then Inr True
      else match_patterns re_compile fnmatch useRegex name rest)"

text \<open>
  \<open>visit\<close>, the loop over the entries of one directory (\<open>normpath\<close> stands for
  \<^verbatim>\<open>os.path.normpath\<close>).
\<close>

fun visit ::
  "(string \<Rightarrow> pyerror + regex) \<Rightarrow> (string \<Rightarrow> string \<Rightarrow> bool) \<Rightarrow> (string \<Rightarrow> string) \<Rightarrow> bool \<Rightarrow>
   bunch \<Rightarrow> string \<Rightarrow> node list \<Rightarrow> pyerror + bunch" where
  "visit re_compile fnmatch normpath useRegex arg dirname [] = Inr arg"
| "visit re_compile fnmatch normpath useRegex arg dirname (entry # files) =
     (let name = node_name entry;
          fullname = normpath (path_join dirname name)
      in if return_folders arg \<noteq> 0 \<or> is_file entry
           then (case match_patterns re_compile fnmatch useRegex name (pattern_list arg) of
                   Inl e \<Rightarrow> Inl e
                 | Inr found \<Rightarrow>
                     visit re_compile fnmatch normpath useRegex
                       (if found then arg\<lparr>results := results arg @ [fullname]\<rparr> else arg)
                       dirname files)
         else visit re_compile fnmatch normpath useRegex arg dirname files)"

text \<open>
  \<^verbatim>\<open>os.path.walk\<close>: the directory is visited, then every entry that is a directory
  is walked, in order; \<open>visit\<close> empties the list of entries when recursion is off.
\<close>

fun walk ::
  "(string \<Rightarrow> pyerror + regex) \<Rightarrow> (string \<Rightarrow> string \<Rightarrow> bool) \<Rightarrow> (string \<Rightarrow> string) \<Rightarrow> bool \<Rightarrow>
   bunch \<Rightarrow> string \<Rightarrow> node list \<Rightarrow> pyerror + bunch"
and walk_entries ::
  "(string \<Rightarrow> pyerror + regex) \<Rightarrow> (string \<Rightarrow> string \<Rightarrow> bool) \<Rightarrow> (string \<Rightarrow> string) \<Rightarrow> bool \<Rightarrow>
   bunch \<Rightarrow> string \<Rightarrow> node list \<Rightarrow> pyerror + bunch" where
  "walk re_compile fnmatch normpath useRegex arg dirname names =
     (case visit re_compile fnmatch normpath useRegex arg dirname names of
        Inl e \<Rightarrow> Inl e
      | Inr arg' \<Rightarrow>
          if recurse arg' = 0 then Inr arg'
          else walk_entries re_compile fnmatch normpath useRegex arg' dirname names)"
| "walk_entries re_compile fnmatch normpath useRegex arg dirname [] = Inr arg"
| "walk_entries re_compile fnmatch normpath useRegex arg dirname (File name # rest) =
     walk_entries re_compile fnmatch normpath useRegex arg dirname rest"
| "walk_entries re_compile fnmatch normpath useRegex arg dirname (Dir name entries # rest) =
     (case walk re_compile fnmatch normpath useRegex arg (path_join dirname name) entries of
        Inl e \<Rightarrow> Inl e
      | Inr arg' \<Rightarrow> walk_entries re_compile fnmatch normpath useRegex arg' dirname rest)"

text \<open>
  \<open>listFiles\<close>; \<open>tree\<close> is the listing of the root directory, \<open>None\<close> when it cannot be listed
  (\<^verbatim>\<open>os.path.walk\<close> then returns at once).
\<close>

definition listFiles ::
  "(string \<Rightarrow> pyerror + regex) \<Rightarrow> (string \<Rightarrow> string \<Rightarrow> bool) \<Rightarrow> (string \<Rightarrow> string) \<Rightarrow>
   node list option \<Rightarrow> string \<Rightarrow> string \<Rightarrow> int \<Rightarrow> int \<Rightarrow> bool \<Rightarrow> pyerror + string list" where
  "listFiles re_compile fnmatch normpath tree root' patterns recurse' return_folders' useRegex =
     (let pattern_list' = split_on (CHR '';'') patterns;
          arg = \<lparr>recurse = recurse', pattern_list = pattern_list',
                 return_folders = return_folders', results = []\<rparr>
      in case tree of
           None \<Rightarrow> Inr []
         | Some names \<Rightarrow>
             (case walk re_compile fnmatch normpath useRegex arg root' names of
                Inl e \<Rightarrow> Inl e
              | Inr arg' \<Rightarrow> Inr (results arg')))"

text \<open>
  A compiler for patterns without special characters, for running the model on
  examples: such a pattern denotes itself.
\<close>

definition compile_literal :: "string \<Rightarrow> pyerror + regex" where
  "compile_literal pattern = Inr (foldr (\<lambda>c r. Seq (Chr c) r) pattern EmptyString)"

section \<open>Properties\<close>

subsection \<open>cleanFilename\<close>

lemma cleanFilename_set:
  "set (cleanFilename s r) = set s - set r"
  by (auto simp: cleanFilename_def)

lemma cleanFilename_count:
  "c \<notin> set r \<Longrightarrow> count_list (cleanFilename s r) c = count_list s c"
  by (induction s) (auto simp: cleanFilename_def)

text \<open>
  Claim C7. For every source string and strip-set, \<open>cleanFilename\<close> is a total function
  (it has no failure value); its output has no character of the strip-set; the output
  is a subsequence of the source (order and case kept) that keeps every occurrence of
  every character outside the strip-set; and cleaning twice equals cleaning once.
\<close>

theorem cleanFilename_spec:
  "set (cleanFilename s r) \<inter> set r = {}
   \<and> subseq (cleanFilename s r) s
   \<and> (\<forall>c. c \<notin> set r \<longrightarrow> count_list (cleanFilename s r) c = count_list s c)
   \<and> cleanFilename (cleanFilename s r) r = cleanFilename s r"
proof -
  have a: "set (cleanFilename s r) \<inter> set r = {}"
    by (auto simp: cleanFilename_set)
  have b: "subseq (cleanFilename s r) s"
    by (simp add: cleanFilename_def)
  have c: "\<forall>c. c \<notin> set r \<longrightarrow> count_list (cleanFilename s r) c = count_list s c"
    by (simp add: cleanFilename_count)
  have d: "cleanFilename (cleanFilename s r) r = cleanFilename s r"
    by (simp add: cleanFilename_def)
  from a b c d show ?thesis by blast
qed

theorem cleanFilename_spec_witness:
  "cleanFilename ''aa bb%cc:dd/ee,ff.gg[ii]jj'' default_removestring = ''aabbccddeeffggiijj''
   \<and> CHR ''a'' \<notin> set default_removestring
   \<and> count_list (cleanFilename ''aa bb%cc:dd/ee,ff.gg[ii]jj'' default_removestring) CHR ''a'' = 2
   \<and> set (cleanFilename ''aa bb%cc:dd/ee,ff.gg[ii]jj'' default_removestring)
       \<inter> set default_removestring = {}"
  using cleanFilename_spec [of "''aa bb%cc:dd/ee,ff.gg[ii]jj''" default_removestring]
  by (simp add: cleanFilename_def default_removestring_def)

subsection \<open>saveHeaderArrayTextFile\<close>

lemma split_on_nonempty: "split_on sep s \<noteq> []"
  by (induction s) (auto split: list.splits)

lemma write_header_None:
  "ls \<noteq> [] \<Longrightarrow> write_header None ls buf = (Inl TypeError, buf)"
  by (cases ls) (auto simp: prefix_line_def)

text \<open>
  Claim C10. When the destination can be opened, a call with a header and with the
  comment prefix left at \<open>None\<close> raises \<^verbatim>\<open>TypeError\<close> at the first header line (nothing
  has been written: the file is left empty); hence a call with a header that returns
  normally was given a comment prefix.
\<close>

theorem saveHeaderArrayTextFile_header_needs_comment:
  "(fs filename \<noteq> Denied \<longrightarrow>
      saveHeaderArrayTextFile savetxt fs filename dataArray (Some h) None delimiter
        = (Inl TypeError, fs(filename := Holds [])))
   \<and> (fst (saveHeaderArrayTextFile savetxt fs filename dataArray (Some h) comment delimiter) = Inr ()
        \<longrightarrow> comment \<noteq> None)"
proof -
  have wh: "write_header None (split_on (CHR 0x0A) h) [] = (Inl TypeError, [])"
    by (rule write_header_None) (rule split_on_nonempty)
  have a: "fs filename \<noteq> Denied \<Longrightarrow>
      saveHeaderArrayTextFile savetxt fs filename dataArray (Some h) None delimiter
        = (Inl TypeError, fs(filename := Holds []))"
    by (cases "fs filename") (simp_all add: saveHeaderArrayTextFile_def open_wt_def wh)
  have b: "fst (saveHeaderArrayTextFile savetxt fs filename dataArray (Some h) None delimiter) \<noteq> Inr ()"
    by (cases "fs filename") (simp_all add: saveHeaderArrayTextFile_def open_wt_def wh)
  from a b show ?thesis by (cases comment) auto
qed

theorem saveHeaderArrayTextFile_header_needs_comment_witness:
  "(\<lambda>_. Missing) ''out.txt'' \<noteq> (Denied :: char fstate)
   \<and> fst (saveHeaderArrayTextFile (\<lambda>a d. Inr a) (\<lambda>_. Missing) ''out.txt'' ''1 2''
            (Some ''line 1'') None None) = Inl TypeError
   \<and> fst (saveHeaderArrayTextFile (\<lambda>a d. Inr a) (\<lambda>_. Missing) ''out.txt'' ''1 2''
            (Some ''line 1'') (Some ''%'') None) = Inr ()
   \<and> Some ''%'' \<noteq> None"
  using saveHeaderArrayTextFile_header_needs_comment
          [of "\<lambda>_. Missing" "''out.txt''" "\<lambda>a d. Inr a" "''1 2''" "''line 1''" None "Some ''%''"]
  by (simp add: saveHeaderArrayTextFile_def open_wt_def prefix_line_def)

subsection \<open>readRawFrames\<close>

lemma py_max_Max: "py_max xs = Inr (Max (set xs))" if "xs \<noteq> []"
proof (cases xs)
  case Nil
  with that show ?thesis by simp
next
  case (Cons y ys)
  then show ?thesis using Max.set_eq_fold[of y ys] by simp
qed

lemma upto_as_upt: "0 \<le> L + 1 \<Longrightarrow> [0..L] = map int [0..<nat (L + 1)]"
proof (induction "nat (L + 1)" arbitrary: L)
  case 0
  then have "L = - 1" by simp
  then show ?case by simp
next
  case (Suc n)
  then have L: "0 \<le> L" and n: "n = nat (L - 1 + 1)" by simp_all
  from Suc(1)[OF n] L have "[0..L - 1] = map int [0..<nat L]" by simp
  moreover have "[0..L] = [0..L - 1] @ [L]" using L upto_rec2[of 0 L] by simp
  moreover have "nat (L + 1) = Suc (nat L)" using L by simp
  ultimately show ?case using L by simp
qed

lemma read_frames_upt:
  assumes "0 \<le> framesize" and "b * nat framesize \<le> length xs"
  shows "a \<le> b \<Longrightarrow> read_frames (Stream (drop (a * nat framesize) xs)) framesize S (map int [a..<b]) data
         = Inr (fold (\<lambda>i d. if int i \<in> set S then retain d (frame_at xs (nat framesize) i) else d) [a..<b] data)"
proof (induction "b - a" arbitrary: a data)
  case 0
  then show ?case by simp
next
  case (Suc n)
  then have ab: "a < b" and n: "n = b - Suc a" by simp_all
  have up: "[a..<b] = a # [Suc a..<b]" using ab by (simp add: upt_conv_Cons)
  have dr: "drop (nat framesize) (drop (a * nat framesize) xs) = drop (Suc a * nat framesize) xs"
    by (simp add: add.commute)
  have le: "Suc a \<le> b" using ab by simp
  show ?case
    using Suc(1)[OF n le, of "if int a \<in> set S then retain data (frame_at xs (nat framesize) a) else data"] assms(1)
    by (cases "int a \<in> set S") (simp_all add: up fromfile_def dr frame_at_def del: upt_Suc)
qed

lemma fold_retain:
  "fold (\<lambda>i d. if P i then retain d (f i) else d) js data =
     (case data of
        None \<Rightarrow> (if filter P js = [] then None else Some (concat (map f (filter P js))))
      | Some d \<Rightarrow> Some (d @ concat (map f (filter P js))))"
  by (induction js arbitrary: data) (auto simp: retain_def split: option.splits)

lemma filter_upt_sorted_list:
  assumes "\<forall>i\<in>S. 0 \<le> i \<and> i < int n"
  shows "sorted_list_of_set S = map int (filter (\<lambda>i. int i \<in> S) [0..<n])"
proof -
  have fin: "finite S"
  proof (rule finite_subset)
    show "S \<subseteq> {0..<int n}" using assms by auto
  qed simp
  have s: "sorted (map int (filter (\<lambda>i. int i \<in> S) [0..<n]))"
    by (simp add: sorted_map sorted_wrt_filter)
  have d: "distinct (map int (filter (\<lambda>i. int i \<in> S) [0..<n]))"
    by (simp add: distinct_map inj_on_def)
  have e: "set (map int (filter (\<lambda>i. int i \<in> S) [0..<n])) = S"
  proof
    show "set (map int (filter (\<lambda>i. int i \<in> S) [0..<n])) \<subseteq> S" by auto
    show "S \<subseteq> set (map int (filter (\<lambda>i. int i \<in> S) [0..<n]))"
    proof
      fix x assume xS: "x \<in> S"
      then have "0 \<le> x" "x < int n" using assms by auto
      then have "int (nat x) = x" "nat x < n" by auto
      with xS have "nat x \<in> set (filter (\<lambda>i. int i \<in> S) [0..<n])" by simp
      then have "int (nat x) \<in> int ` set (filter (\<lambda>i. int i \<in> S) [0..<n])"
        by (rule imageI)
      then have "int (nat x) \<in> set (map int (filter (\<lambda>i. int i \<in> S) [0..<n]))"
        by (simp only: set_map)
      then show "x \<in> set (map int (filter (\<lambda>i. int i \<in> S) [0..<n]))"
        using \<open>int (nat x) = x\<close> by simp
    qed
  qed
  show ?thesis
    by (rule sorted_distinct_set_unique) (simp_all add: s d e fin del: set_map set_filter)
qed

lemma length_concat_frames:
  assumes "\<forall>i\<in>set js. Suc i * sz \<le> length xs"
  shows "length (concat (map (frame_at xs sz) js)) = length js * sz"
  using assms
proof (induction js)
  case Nil then show ?case by simp
next
  case (Cons j js)
  then have "Suc j * sz \<le> length xs" by simp
  then have "sz \<le> length xs - j * sz" by simp
  then have "length (frame_at xs sz j) = sz" by (simp add: frame_at_def)
  with Cons show ?case by simp
qed

lemma exact_uptoD: "exact_upto fl B \<Longrightarrow> \<bar>n\<bar> \<le> B \<Longrightarrow> fl (of_int n) = of_int n"
  by (simp add: exact_upto_def)

lemma shape_frames_exact:
  assumes r: "0 < rows" and c: "0 < cols" and k: "0 \<le> k"
    and len: "int (length d) = k * rows * cols"
    and ex: "exact_upto fl B" and B: "int (length d) \<le> B" "rows \<le> B" "cols \<le> B"
  shows "shape_frames fl (Some d) rows cols
           = Inr (k, Some \<lparr>shape = [nat k, nat rows, nat cols], elems = d\<rparr>)"
proof -
  have rc: "rows * cols \<noteq> 0" using r c by simp
  have k1: "k \<le> k * rows" using r k by (simp add: mult_le_cancel_left1)
  have kr: "0 \<le> k * rows" using r k by simp
  have k2: "k * rows \<le> k * rows * cols" using kr c by (simp add: mult_le_cancel_left1)
  have fk: "fl (of_int k) = of_int k"
    by (rule exact_uptoD[OF ex]) (use B k k1 k2 len in linarith)
  have fr: "fl (of_int rows) = of_int rows"
    by (rule exact_uptoD[OF ex]) (use B r in linarith)
  have fc: "fl (of_int cols) = of_int cols"
    by (rule exact_uptoD[OF ex]) (use B c in linarith)
  have fkr: "fl (of_int (k * rows)) = of_int (k * rows)"
    by (rule exact_uptoD[OF ex]) (use B kr k2 len in linarith)
  have fe: "fl (of_int (k * rows * cols)) = of_int (k * rows * cols)"
    by (rule exact_uptoD[OF ex]) (use B kr k2 len in linarith)
  have q: "(of_int (k * rows * cols) :: rat) / of_int (rows * cols) = of_int k"
    using rc by (simp add: field_simps)
  have td: "true_div fl (int (length d)) (rows * cols) = Inr (of_int k)"
    using rc by (simp add: true_div_def len q fk)
  have m1: "float_mul_int fl (of_int k) rows = of_int (k * rows)"
    using fr fkr by (simp add: float_mul_int_def to_float_def)
  have m2: "float_mul_int fl (of_int (k * rows)) cols = of_int (k * rows * cols)"
    using fc fe by (simp add: float_mul_int_def to_float_def)
  have i: "int_of_float (of_int k) = k" using k by (simp add: int_of_float_def)
  have rs: "reshape d [k, rows, cols] = Inr \<lparr>shape = [nat k, nat rows, nat cols], elems = d\<rparr>"
    using r c k len by (simp add: reshape_def mult.assoc)
  have len2: "(of_nat (length d) :: rat) = of_int (k * rows * cols)"
    using len by (metis of_int_of_nat_eq)
  show ?thesis
    unfolding shape_frames_def
    by (simp add: td m1 m2 i rs len2 del: of_int_mult)
qed

lemma reshape_divides:
  assumes "reshape d [f, rows, cols] = Inr a" and "0 < rows" and "0 < cols"
  shows "int (length d) mod (rows * cols) = 0"
proof -
  from assms have "f * (rows * cols) = int (length d) \<or> int (length d) mod (rows * cols) = 0"
    by (auto simp: reshape_def Let_def mult.assoc split: if_splits)
  then show ?thesis
  proof
    assume "f * (rows * cols) = int (length d)"
    then have "int (length d) = f * (rows * cols)" by simp
    then show ?thesis by simp
  qed simp
qed

lemma shape_frames_stack_divides:
  assumes "shape_frames fl (Some d) rows cols = Inr (n, Some a)" and "0 < rows" and "0 < cols"
  shows "int (length d) mod (rows * cols) = 0"
  using assms
  by (auto simp: shape_frames_def Let_def split: sum.splits if_splits dest: reshape_divides)



text \<open>
  Claim C1. In both branches, when the file cannot be opened (it is missing or access
  is denied) or a read raises \<^verbatim>\<open>IOError\<close>, the call returns the frame count 0 and no
  stack; it does not raise. (With a request list a read is attempted as soon as the
  list has a non-negative index.)
\<close>

theorem readRawFrames_io_failure:
  assumes "fs fname = Missing \<or> fs fname = Denied
           \<or> (fs fname = ReadFault \<and> (loadFrames = [] \<or> (\<exists>i\<in>set loadFrames. 0 \<le> i)))"
  shows "readRawFrames fl fs fname rows cols loadFrames = Inr (0, None)"
proof (cases "loadFrames = []")
  case True
  from assms have "load_all fs fname = Inl IOError"
    by (auto simp: load_all_def open_rb_def fromfile_def)
  with True show ?thesis by (simp add: readRawFrames_def)
next
  case False
  then have mx: "py_max loadFrames = Inr (Max (set loadFrames))" by (rule py_max_Max)
  have "load_requested fs fname rows cols loadFrames = Inl IOError"
  proof (cases "fs fname = ReadFault")
    case rf: True
    with assms False obtain i where "i \<in> set loadFrames" "0 \<le> i" by auto
    then have "0 \<le> Max (set loadFrames)" by (meson List.finite_set Max_ge order_trans)
    then have "[0..Max (set loadFrames)] = 0 # [1..Max (set loadFrames)]"
      by (simp add: upto_rec1)
    with rf show ?thesis
      by (simp add: load_requested_def mx open_rb_def fromfile_def)
  next
    case False
    with assms have "open_rb fs fname = Inl IOError" by (auto simp: open_rb_def)
    then show ?thesis by (simp add: load_requested_def mx)
  qed
  with False show ?thesis by (simp add: readRawFrames_def)
qed


theorem readRawFrames_io_failure_witness:
  "single_file ''a.raw'' ''abcd'' ''b.raw'' = Missing
   \<and> readRawFrames id (single_file ''a.raw'' ''abcd'') ''b.raw'' 2 2 [] = Inr (0, None)
   \<and> readRawFrames id (single_file ''a.raw'' ''abcd'') ''b.raw'' 2 2 [1, 3] = Inr (0, None)"
  using readRawFrames_io_failure [of "single_file ''a.raw'' ''abcd''" "''b.raw''" "[]" id 2 2]
        readRawFrames_io_failure [of "single_file ''a.raw'' ''abcd''" "''b.raw''" "[1, 3]" id 2 2]
  by (simp add: single_file_def)

text \<open>
  The claim C2 as stated fails: a file of five elements read as frames of two rows and
  two columns holds one complete frame and a partial one. The quotient \<open>5 / 4\<close> is the
  float \<open>1.25\<close> (exactly representable, as are its products by 2), \<^verbatim>\<open>sizeCheck\<close>
  equals \<^verbatim>\<open>data.size\<close>, and the reshape of five elements to \<open>(1, 2, 2)\<close> raises.
\<close>

theorem readRawFrames_partial_frame_counterexample:
  "readRawFrames id (single_file ''frames.raw'' ''abcde'') ''frames.raw'' 2 2 []
     = Inl (ValueError ''total size of new array must be unchanged'')"
  by code_simp


text \<open>
  Claim C2, amended. Without a request list, on a readable file of \<open>E\<close> elements and for
  positive \<open>rows\<close> and \<open>cols\<close> (all within the range where floats are exact): when \<open>E\<close> is
  an exact multiple of \<open>rows * cols\<close> the call returns the count \<open>E div (rows * cols)\<close>
  and a stack of shape \<open>(E div (rows * cols), rows, cols)\<close> holding the elements of the
  file in order; when \<open>E\<close> is not an exact multiple, no stack is returned (whatever the
  rounding \<open>fl\<close>).
\<close>

theorem readRawFrames_all_frames:
  assumes fs: "fs fname = Holds xs" and r: "0 < rows" and c: "0 < cols"
    and ex: "exact_upto fl (max (int (length xs)) (max rows cols))"
  shows "(int (length xs) mod (rows * cols) = 0 \<longrightarrow>
            readRawFrames fl fs fname rows cols []
              = Inr (int (length xs) div (rows * cols),
                     Some \<lparr>shape = [nat (int (length xs) div (rows * cols)), nat rows, nat cols],
                           elems = xs\<rparr>))
       \<and> (int (length xs) mod (rows * cols) \<noteq> 0 \<longrightarrow>
            (\<forall>n a. readRawFrames fl fs fname rows cols [] \<noteq> Inr (n, Some a)))"
proof -
  have rd: "readRawFrames fl fs fname rows cols [] = shape_frames fl (Some xs) rows cols"
    using fs by (simp add: readRawFrames_def load_all_def open_rb_def fromfile_def)
  have rc: "0 < rows * cols" using r c by simp
  have a: "readRawFrames fl fs fname rows cols []
              = Inr (int (length xs) div (rows * cols),
                     Some \<lparr>shape = [nat (int (length xs) div (rows * cols)), nat rows, nat cols],
                           elems = xs\<rparr>)"
    if m: "int (length xs) mod (rows * cols) = 0"
  proof -
    let ?k = "int (length xs) div (rows * cols)"
    have k: "0 \<le> ?k" using rc by (simp add: pos_imp_zdiv_nonneg_iff)
    have "int (length xs) = ?k * (rows * cols)" using m by auto
    then have len: "int (length xs) = ?k * rows * cols" by (simp add: mult.assoc)
    show ?thesis
      unfolding rd
      by (rule shape_frames_exact[OF r c k len ex]) simp_all
  qed
  have b: "readRawFrames fl fs fname rows cols [] \<noteq> Inr (n, Some a)"
    if m: "int (length xs) mod (rows * cols) \<noteq> 0" for n a
    using shape_frames_stack_divides[OF _ r c, of fl xs n a] m unfolding rd by blast
  from a b show ?thesis by blast
qed


theorem readRawFrames_all_frames_witness:
  "single_file ''f.raw'' ''abcdefgh'' ''f.raw'' = Holds ''abcdefgh''
   \<and> exact_upto id (max (int (length ''abcdefgh'')) (max 2 2))
   \<and> int (length ''abcdefgh'') mod (2 * 2) = 0
   \<and> readRawFrames id (single_file ''f.raw'' ''abcdefgh'') ''f.raw'' 2 2 []
       = Inr (2, Some \<lparr>shape = [2, 2, 2], elems = ''abcdefgh''\<rparr>)
   \<and> int (length ''abcde'') mod (2 * 2) \<noteq> 0
   \<and> readRawFrames id (single_file ''f.raw'' ''abcde'') ''f.raw'' 2 2 []
       \<noteq> Inr (1, Some \<lparr>shape = [1, 2, 2], elems = ''abcd''\<rparr>)"
  using readRawFrames_all_frames [of "single_file ''f.raw'' ''abcdefgh''" "''f.raw''" "''abcdefgh''" 2 2 id]
        readRawFrames_all_frames [of "single_file ''f.raw'' ''abcde''" "''f.raw''" "''abcde''" 2 2 id]
  by (simp add: single_file_def exact_upto_def)

text \<open>
  Claim C3 on the code: the file holds five elements, the frames have two rows and two
  columns, frames 0 and 1 are requested. Frame 1 is cut short, five elements are
  retained, and the call raises at the reshape: \<^verbatim>\<open>frames\<close> is the float \<open>1.25\<close>, so
  \<^verbatim>\<open>sizeCheck == data.size\<close> holds and the guard does not stop the reshape.
\<close>

theorem readRawFrames_truncated_request_raises:
  "readRawFrames id (single_file ''frames.raw'' ''abcde'') ''frames.raw'' 2 2 [0, 1]
     = Inl (ValueError ''total size of new array must be unchanged'')"
  by code_simp

text \<open>
  Claim C4. With a non-empty list of (non-negative) frame indices, positive \<open>rows\<close> and
  \<open>cols\<close>, and a file that holds at least \<open>max(loadFrames) + 1\<close> complete frames, the
  call returns as many frames as there are distinct requested indices, and the stack
  is the concatenation of the frames at these positions of the file in increasing
  position, whatever the order of the request list.
\<close>

theorem readRawFrames_requested_frames:
  assumes fs: "fs fname = Holds xs" and ne: "loadFrames \<noteq> []"
    and nonneg: "\<forall>i\<in>set loadFrames. 0 \<le> i"
    and r: "0 < rows" and c: "0 < cols"
    and present: "(Max (set loadFrames) + 1) * (rows * cols) \<le> int (length xs)"
    and ex: "exact_upto fl (int (length xs))"
  shows "readRawFrames fl fs fname rows cols loadFrames
           = Inr (int (card (set loadFrames)),
                  Some \<lparr>shape = [card (set loadFrames), nat rows, nat cols],
                        elems = concat (map (\<lambda>i. frame_at xs (nat (rows * cols)) (nat i))
                                            (sorted_list_of_set (set loadFrames)))\<rparr>)"
proof -
  let ?S = "set loadFrames" and ?L = "Max (set loadFrames)" and ?sz = "nat (rows * cols)"
  let ?n = "nat (?L + 1)"
  let ?P = "\<lambda>i. int i \<in> ?S"
  let ?js = "filter ?P [0..<?n]"
  have rc: "0 < rows * cols" using r c by simp
  have Lin: "?L \<in> ?S" using ne by (intro Max_in) simp_all
  then have L0: "0 \<le> ?L" using nonneg by blast
  have bound: "\<forall>i\<in>?S. 0 \<le> i \<and> i < int ?n"
  proof
    fix i assume i: "i \<in> ?S"
    then have "i \<le> ?L" by simp
    with i nonneg L0 show "0 \<le> i \<and> i < int ?n" by auto
  qed
  have sl: "sorted_list_of_set ?S = map int ?js" by (rule filter_upt_sorted_list[OF bound])
  have ljs: "length ?js = card ?S"
    using arg_cong[OF sl, of length] by simp
  have nsz: "?n * ?sz \<le> length xs"
  proof -
    have "int (?n * ?sz) = (?L + 1) * (rows * cols)" using L0 rc by simp
    with present show ?thesis by linarith
  qed
  have mx: "py_max loadFrames = Inr ?L" using ne by (rule py_max_Max)
  have up: "[0..?L] = map int [0..<?n]" using L0 by (simp add: upto_as_upt)
  have jne: "?js \<noteq> []"
  proof -
    have "card ?S \<noteq> 0" using ne by (simp add: card_eq_0_iff)
    with ljs show ?thesis by auto
  qed
  let ?data = "concat (map (frame_at xs ?sz) ?js)"
  have rf: "read_frames (Stream xs) (rows * cols) loadFrames (map int [0..<?n]) None = Inr (Some ?data)"
    using read_frames_upt[of "rows * cols" ?n xs 0 loadFrames None] rc nsz jne
    by (simp add: fold_retain)
  have ld: "load_requested fs fname rows cols loadFrames = Inr (Some ?data)"
    using fs by (simp add: load_requested_def mx open_rb_def up rf)
  have inb: "\<forall>i\<in>set ?js. Suc i * ?sz \<le> length xs"
  proof
    fix i assume "i \<in> set ?js"
    then have "Suc i \<le> ?n" by auto
    then have "Suc i * ?sz \<le> ?n * ?sz" by (rule mult_le_mono1)
    with nsz show "Suc i * ?sz \<le> length xs" by linarith
  qed
  have len: "int (length ?data) = int (card ?S) * rows * cols"
    using length_concat_frames[OF inb] ljs rc by (simp add: mult.assoc)
  have le1: "int (length ?data) \<le> int (length xs)"
  proof -
    have "length ?js \<le> ?n" using length_filter_le[of ?P "[0..<?n]"] by simp
    then have "length ?js * ?sz \<le> ?n * ?sz" by (rule mult_le_mono1)
    with nsz have "length ?js * ?sz \<le> length xs" by linarith
    then have "length ?data \<le> length xs" by (simp only: length_concat_frames[OF inb])
    then show ?thesis by (simp only: of_nat_le_iff)
  qed
  have one: "rows * cols \<le> int (length xs)"
  proof -
    have "1 * (rows * cols) \<le> (?L + 1) * (rows * cols)"
      using L0 rc by (intro mult_right_mono) simp_all
    with present show ?thesis by simp
  qed
  have rle: "rows \<le> int (length xs)"
  proof -
    have "rows * 1 \<le> rows * cols" using r c by (intro mult_left_mono) simp_all
    with one show ?thesis by simp
  qed
  have cle: "cols \<le> int (length xs)"
  proof -
    have "1 * cols \<le> rows * cols" using r c by (intro mult_right_mono) simp_all
    with one show ?thesis by simp
  qed
  have el: "map (\<lambda>i. frame_at xs ?sz (nat i)) (sorted_list_of_set ?S) = map (frame_at xs ?sz) ?js"
    by (simp add: sl comp_def)
  have "shape_frames fl (Some ?data) rows cols
          = Inr (int (card ?S), Some \<lparr>shape = [nat (int (card ?S)), nat rows, nat cols], elems = ?data\<rparr>)"
    by (rule shape_frames_exact[OF r c _ len ex le1 rle cle]) simp
  then show ?thesis
    using ne by (simp add: readRawFrames_def ld el)
qed


theorem readRawFrames_requested_frames_witness:
  "single_file ''f.raw'' ''abcdefgh'' ''f.raw'' = Holds ''abcdefgh''
   \<and> (Max (set [3, 1]) + 1) * (1 * 2) \<le> int (length ''abcdefgh'')
   \<and> exact_upto id (int (length ''abcdefgh''))
   \<and> readRawFrames id (single_file ''f.raw'' ''abcdefgh'') ''f.raw'' 1 2 [3, 1]
       = Inr (2, Some \<lparr>shape = [2, 1, 2], elems = ''cdgh''\<rparr>)"
  using readRawFrames_requested_frames [of "single_file ''f.raw'' ''abcdefgh''" "''f.raw''" "''abcdefgh''" "[3, 1]" 1 2 id]
  by (simp add: single_file_def exact_upto_def frame_at_def sorted_list_of_set_sort_remdups)

subsection \<open>read2DLookupTable\<close>

lemma map_raise_total:
  "(\<forall>x\<in>set xs. f x = Inr (g x)) \<Longrightarrow> map_raise f xs = Inr (map g xs)"
  by (induction xs) simp_all

lemma py_index_0: "r \<noteq> [] \<Longrightarrow> py_index r 0 = Inr (hd r)"
  by (cases r) (simp_all add: py_index_def)

lemma squeeze_rows_Matrix:
  assumes "2 \<le> length X" and "\<forall>r\<in>set X. length r = n" and "2 \<le> n"
  shows "squeeze_rows X = Inr (Matrix X)"
proof -
  from assms(1) obtain r rs where X: "X = r # rs" and rs: "rs \<noteq> []"
    by (cases X; cases "tl X") auto
  from assms(2) X have "length r = n" "\<forall>r'\<in>set rs. length r' = n" by auto
  with assms(3) rs X show ?thesis
    by (auto simp: squeeze_rows_def)
qed


text \<open>
  Claim C9. For a well-formed lookup-table file (a first line of three tokens, then a
  numeric portion that parses to a rectangular grid of \<open>M + 1\<close> rows and \<open>N + 1\<close>
  columns, with at least one x-abscissa row and one y-abscissa column as in the
  layout of the docstring), \<open>read2DLookupTable\<close> returns column 0 of rows \<open>1..M\<close> as
  the x-abscissa (length \<open>M\<close>), row 0 without its first entry as the y-abscissa
  (length \<open>N\<close>), the remaining \<open>M\<close> by \<open>N\<close> block as data, and the three tokens of the
  first line as labels.
\<close>

theorem read2DLookupTable_shape:
  assumes fs: "fs filename = Holds content"
    and lines: "readlines content = first # rest"
    and labels: "py_split first = [xl, yl, t]"
    and rows: "parse_rows conv (Some ''#'') None [] rest = Inr X"
    and M: "length X = Suc M" "1 \<le> M"
    and N: "\<forall>r\<in>set X. length r = Suc N" "1 \<le> N"
  shows "read2DLookupTable conv fs filename
           = Inr \<lparr>xVec = map hd (tl X), yVec = tl (hd X), tdata = map tl (tl X),
                  xlabel = xl, ylabel = yl, title = t\<rparr>
         \<and> length (map hd (tl X)) = M \<and> length (tl (hd X)) = N
         \<and> length (map tl (tl X)) = M \<and> (\<forall>r\<in>set (map tl (tl X)). length r = N)"
proof -
  from M obtain r0 X' where X: "X = r0 # X'" by (cases X) auto
  have lab: "read_labels (readlines content) = Inr (xl, yl, t)"
    by (simp add: read_labels_def lines labels)
  have sq: "squeeze_rows X = Inr (Matrix X)"
    by (rule squeeze_rows_Matrix[where n = "Suc N"]) (use M N in auto)
  have lt: "loadtxt conv fs filename (Some ''#'') None (Suc 0) [] False = Inr (Matrix X)"
    by (simp add: loadtxt_def fs lines rows sq)
  have ne: "\<forall>r\<in>set X'. r \<noteq> []" using N X by auto
  have c0: "column0_below (Matrix X) = Inr (map hd (tl X))"
    unfolding column0_below_def using ne X
    by (simp add: map_raise_total[where g = hd] py_index_0)
  have r0: "row0_right (Matrix X) = Inr (tl (hd X))"
    by (simp add: row0_right_def X py_index_def)
  have bl: "block_below_right (Matrix X) = Inr (map tl (tl X))"
    by (simp add: block_below_right_def)
  have res: "read2DLookupTable conv fs filename
           = Inr \<lparr>xVec = map hd (tl X), yVec = tl (hd X), tdata = map tl (tl X),
                  xlabel = xl, ylabel = yl, title = t\<rparr>"
    by (simp add: read2DLookupTable_def fs lab lt c0 r0 bl)
  have l1: "length (map hd (tl X)) = M" using M by simp
  have l2: "length (tl (hd X)) = N" using N X by simp
  have l3: "length (map tl (tl X)) = M" using M by simp
  have l4: "\<forall>r\<in>set (map tl (tl X)). length r = N" using N X by auto
  from res l1 l2 l3 l4 show ?thesis by simp
qed


theorem read2DLookupTable_shape_witness:
  "read2DLookupTable float_of_digits
     (single_file ''lut.txt''
        ''azim zen irrad\<newline>0 1 2 3 4\<newline>10 11 12 13 14\<newline>20 21 22 23 24\<newline>30 31 32 33 34\<newline>40 41 42 43 44\<newline>'')
     ''lut.txt''
   = Inr \<lparr>xVec = [10, 20, 30, 40], yVec = [1, 2, 3, 4],
          tdata = [[11, 12, 13, 14], [21, 22, 23, 24], [31, 32, 33, 34], [41, 42, 43, 44]],
          xlabel = ''azim'', ylabel = ''zen'', title = ''irrad''\<rparr>
   \<and> length [10, 20, 30, 40 :: rat] = 4 \<and> length [1, 2, 3, 4 :: rat] = 4"
proof -
  let ?content = "''azim zen irrad\<newline>0 1 2 3 4\<newline>10 11 12 13 14\<newline>20 21 22 23 24\<newline>30 31 32 33 34\<newline>40 41 42 43 44\<newline>''"
  let ?rest = "[''0 1 2 3 4\<newline>'', ''10 11 12 13 14\<newline>'', ''20 21 22 23 24\<newline>'',
                ''30 31 32 33 34\<newline>'', ''40 41 42 43 44\<newline>'']"
  let ?X = "[[0, 1, 2, 3, 4], [10, 11, 12, 13, 14], [20, 21, 22, 23, 24],
             [30, 31, 32, 33, 34], [40, 41, 42, 43, 44 :: rat]]"
  have h1: "single_file ''lut.txt'' ?content ''lut.txt'' = Holds ?content"
    by (simp add: single_file_def)
  have h2: "readlines ?content = ''azim zen irrad\<newline>'' # ?rest"
    by simp
  have h3: "py_split ''azim zen irrad\<newline>'' = [''azim'', ''zen'', ''irrad'']"
    by (simp add: py_split_def is_space_def)
  have h4: "parse_rows float_of_digits (Some ''#'') None [] ?rest = Inr ?X"
    by code_simp
  have h5: "length ?X = Suc 4" "1 \<le> (4::nat)" by simp_all
  have h6: "\<forall>r\<in>set ?X. length r = Suc 4" by simp
  show ?thesis
    using read2DLookupTable_shape
            [of "single_file ''lut.txt'' ?content" "''lut.txt''" ?content, OF h1 h2 h3 h4 h5 h6]
    by simp
qed

text \<open>
  A grid of a single row is outside the layout: \<^verbatim>\<open>loadtxt\<close> returns a vector for it,
  and the two-index subscripts raise.
\<close>

lemma read2DLookupTable_single_row:
  "read2DLookupTable float_of_digits (single_file ''lut.txt'' ''azim zen irrad\<newline>0 1 2 3 4\<newline>'') ''lut.txt''
     = Inl IndexError"
  by code_simp

subsection \<open>loadColumnTextFile\<close>

text \<open>
  Both calls of \<^verbatim>\<open>loadtxt\<close> read the same lines, so the abscissa and the ordinate have
  the same number of rows.
\<close>

lemma map_raise_length: "map_raise f xs = Inr ys \<Longrightarrow> length ys = length xs"
  by (induction xs arbitrary: ys) (auto split: sum.splits)

lemma parse_line_usecols:
  assumes "parse_line conv c d u line = Inr r" and "parse_line conv c d u' line = Inr r'"
  shows "(r = None) = (r' = None)"
  using assms by (auto simp: parse_line_def split: sum.splits if_splits)

lemma parse_rows_same_length:
  "parse_rows conv c d u lines = Inr X \<Longrightarrow> parse_rows conv c d u' lines = Inr X'
     \<Longrightarrow> length X = length X'"
proof (induction lines arbitrary: X X')
  case Nil
  then show ?case by simp
next
  case (Cons line rest)
  from Cons.prems obtain r r' where r: "parse_line conv c d u line = Inr r"
    and r': "parse_line conv c d u' line = Inr r'"
    by (auto split: sum.splits)
  show ?case
  proof (cases r)
    case None
    with parse_line_usecols[OF r r'] have "r' = None" by simp
    with None r r' Cons.prems Cons.IH show ?thesis by simp
  next
    case (Some items)
    with parse_line_usecols[OF r r'] obtain items' where s': "r' = Some items'" by auto
    from Cons.prems r r' Some s' obtain X1 X1' where
      "parse_rows conv c d u rest = Inr X1" "X = items # X1"
      "parse_rows conv c d u' rest = Inr X1'" "X' = items' # X1'"
      by (auto split: sum.splits)
    with Cons.IH show ?thesis by simp
  qed
qed

lemma parse_line_nonempty:
  "parse_line conv c d u line = Inr (Some items) \<Longrightarrow> items \<noteq> []"
  by (auto simp: parse_line_def split: sum.splits if_splits dest!: map_raise_length)

lemma parse_rows_nonempty:
  "parse_rows conv c d u lines = Inr X \<Longrightarrow> \<forall>r\<in>set X. r \<noteq> []"
proof (induction lines arbitrary: X)
  case Nil
  then show ?case by simp
next
  case (Cons line rest)
  then show ?case
    by (auto split: sum.splits option.splits dest: parse_line_nonempty)
qed

lemma parse_line_length:
  "parse_line conv c d u line = Inr (Some items) \<Longrightarrow> u \<noteq> [] \<Longrightarrow> length items = length u"
  by (auto simp: parse_line_def split: sum.splits if_splits dest!: map_raise_length)

lemma parse_rows_row_length:
  "parse_rows conv c d u lines = Inr X \<Longrightarrow> u \<noteq> [] \<Longrightarrow> \<forall>r\<in>set X. length r = length u"
proof (induction lines arbitrary: X)
  case Nil
  then show ?case by simp
next
  case (Cons line rest)
  then show ?case
    by (auto split: sum.splits option.splits dest: parse_line_length)
qed

lemma squeeze_rows_Vector_length:
  assumes "squeeze_rows X = Inr (Vector v)" and "2 \<le> length v" and "\<forall>r\<in>set X. length r = 1"
  shows "length X = length v"
proof (cases X)
  case Nil
  with assms show ?thesis by (simp add: squeeze_rows_def)
next
  case (Cons r rs)
  with assms(3) have r: "length r = 1" by simp
  show ?thesis
  proof (cases "rs = []")
    case True
    with Cons r assms(1) show ?thesis by (simp add: squeeze_rows_def split: if_splits)
  next
    case False
    then have "length X \<noteq> 1" using Cons by simp
    with Cons r assms(1) have "Vector (map hd X) = Vector v"
      by (simp add: squeeze_rows_def split: if_splits)
    then have "length (map hd X) = length v" by simp
    then show ?thesis by simp
  qed
qed

lemma transpose_rows_length:
  assumes rect: "\<forall>r\<in>set X. length r = m" and "X \<noteq> []"
  shows "\<forall>c\<in>set (transpose X). length c = length X"
proof -
  have tr: "transpose X = map (\<lambda>i. map (\<lambda>j. X ! j ! i) [0..<length X]) [0..<m]"
    by (rule transpose_rectangle) (use assms in auto)
  show ?thesis unfolding tr by simp
qed

lemma transpose_nonempty:
  assumes rect: "\<forall>r\<in>set X. length r = m" and "X \<noteq> []" and "0 < m"
  shows "transpose X \<noteq> []"
proof -
  have tr: "transpose X = map (\<lambda>i. map (\<lambda>j. X ! j ! i) [0..<length X]) [0..<m]"
    by (rule transpose_rectangle) (use assms in auto)
  show ?thesis unfolding tr using assms(3) by simp
qed

lemma squeeze_transpose_last_axis:
  assumes sq: "squeeze_rows X = Inr a" and n: "2 \<le> length X" and ne: "\<forall>r\<in>set X. r \<noteq> []"
  shows "(\<exists>v. transpose_table a = Vector v \<and> length v = length X)
       \<or> (\<exists>T. transpose_table a = Matrix T \<and> T \<noteq> [] \<and> (\<forall>c\<in>set T. length c = length X))"
proof -
  from n obtain r rs where X: "X = r # rs" by (cases X) auto
  from sq X have rect: "\<forall>r'\<in>set X. length r' = length r"
    by (auto simp: squeeze_rows_def split: if_splits)
  from ne X have pos: "0 < length r" by auto
  show ?thesis
  proof (cases "length r = 1")
    case True
    with sq X n have "a = Vector (map hd X)"
      by (auto simp: squeeze_rows_def split: if_splits)
    then show ?thesis by (simp add: transpose_table_def)
  next
    case False
    have nr: "\<forall>r'\<in>set rs. length r' = length r" using rect X by simp
    have l1: "rs \<noteq> []" using n X by (cases rs) simp_all
    have "squeeze_rows (r # rs) = Inr (Matrix (r # rs))"
      using nr l1 False by (simp add: squeeze_rows_def)
    with sq X have a: "a = Matrix X" by simp
    have Xne: "X \<noteq> []" using X by simp
    have "transpose_table a = Matrix (transpose X)" by (simp add: a transpose_table_def)
    moreover have "transpose X \<noteq> []" by (rule transpose_nonempty[OF rect Xne pos])
    moreover have "\<forall>c\<in>set (transpose X). length c = length X"
      by (rule transpose_rows_length[OF rect Xne])
    ultimately show ?thesis by blast
  qed
qed

lemma loadtxt_abscissa_ordinate:
  assumes a0: "loadtxt conv fs filename comment delimiter skiprows [0] True = Inr (Vector xs0)"
    and o0: "loadtxt conv fs filename comment delimiter skiprows loadCol True = Inr o0"
    and len: "2 \<le> length xs0"
  shows "(\<exists>v. o0 = Vector v \<and> length v = length xs0)
       \<or> (\<exists>T. o0 = Matrix T \<and> T \<noteq> [] \<and> (\<forall>c\<in>set T. length c = length xs0))"
proof -
  from a0 obtain content where fs: "fs filename = Holds content"
    by (auto simp: loadtxt_def split: fstate.splits)
  let ?lines = "drop skiprows (readlines content)"
  from a0 fs obtain X0 where p0: "parse_rows conv comment delimiter [0] ?lines = Inr X0"
    and s0: "squeeze_rows X0 = Inr (Vector xs0)"
    by (auto simp: loadtxt_def Let_def transpose_table_def split: if_splits sum.splits table.splits)
  from o0 fs obtain X1 a1 where p1: "parse_rows conv comment delimiter loadCol ?lines = Inr X1"
    and s1: "squeeze_rows X1 = Inr a1" and o: "o0 = transpose_table a1"
    by (auto simp: loadtxt_def Let_def split: if_splits sum.splits)
  have "\<forall>r\<in>set X0. length r = 1"
    using parse_rows_row_length[OF p0] by simp
  then have "length X0 = length xs0" by (rule squeeze_rows_Vector_length[OF s0 len])
  with parse_rows_same_length[OF p0 p1] have l1: "length X1 = length xs0" by simp
  with len have n: "2 \<le> length X1" by simp
  from squeeze_transpose_last_axis[OF s1 n parse_rows_nonempty[OF p1]] o l1
  show ?thesis by simp
qed

lemma interp1d_init_ok:
  assumes "(\<exists>v. y = Vector v \<and> length v = length xs)
       \<or> (\<exists>T. y = Matrix T \<and> T \<noteq> [] \<and> (\<forall>c\<in>set T. length c = length xs))"
    and "2 \<le> length xs"
  shows "\<exists>Y. interp1d_init (Vector xs) y = Inr (xs, Y)"
  using assms
  by (auto simp: interp1d_init_def shape_of_def Let_def split: list.splits)

lemma scale_table_shape:
  "(\<exists>v. o0 = Vector v \<and> length v = n) \<or> (\<exists>T. o0 = Matrix T \<and> T \<noteq> [] \<and> (\<forall>c\<in>set T. length c = n))
   \<Longrightarrow> (\<exists>v. scale_table k o0 = Vector v \<and> length v = n)
       \<or> (\<exists>T. scale_table k o0 = Matrix T \<and> T \<noteq> [] \<and> (\<forall>c\<in>set T. length c = n))"
  by (auto simp: scale_table_def)

lemma check_bounds_outside:
  assumes "xs \<noteq> []" and "\<exists>t\<in>set x_new. t < Min (set xs) \<or> Max (set xs) < t"
  shows "check_bounds xs x_new = Inl (ValueError ''A value in x_new is below the interpolation range.'')
       \<or> check_bounds xs x_new = Inl (ValueError ''A value in x_new is above the interpolation range.'')"
proof -
  from assms obtain t where t: "t \<in> set x_new" and o: "t < Min (set xs) \<or> Max (set xs) < t" by blast
  have h: "Min (set xs) \<le> hd xs" using assms(1) by simp
  have l: "last xs \<le> Max (set xs)" using assms(1) by simp
  from o h l have "t < hd xs \<or> last xs < t" by auto
  with t show ?thesis by (auto simp: check_bounds_def)
qed


text \<open>
  Claim C6. With a target abscissa vector, a parsed (and scaled) abscissa of at least
  two rows, and ordinate columns that load, a target value outside the range of the
  abscissa makes the call fail with the out-of-range \<^verbatim>\<open>ValueError\<close> of the interpolant
  (below or above the range): nothing is extrapolated.
\<close>

theorem loadColumnTextFile_out_of_domain:
  assumes a0: "loadtxt conv fs filename comment delimiter skiprows [0] True = Inr (Vector xs0)"
    and o0: "loadtxt conv fs filename comment delimiter skiprows loadCol True = Inr o0"
    and len: "2 \<le> length xs0"
    and out: "\<exists>t\<in>set x_new. t < Min (set (map ((*) abscissaScale) xs0))
                            \<or> Max (set (map ((*) abscissaScale) xs0)) < t"
  shows "loadColumnTextFile conv fs filename loadCol comment normalize' skiprows delimiter
             abscissaScale ordinateScale (Some x_new)
           = Inl (ValueError ''A value in x_new is below the interpolation range.'')
       \<or> loadColumnTextFile conv fs filename loadCol comment normalize' skiprows delimiter
             abscissaScale ordinateScale (Some x_new)
           = Inl (ValueError ''A value in x_new is above the interpolation range.'')"
proof -
  let ?xs = "map ((*) abscissaScale) xs0"
  let ?y = "scale_table ordinateScale o0"
  have sx: "scale_table abscissaScale (Vector xs0) = Vector ?xs" by (simp add: scale_table_def)
  have len': "2 \<le> length ?xs" using len by simp
  have "(\<exists>v. ?y = Vector v \<and> length v = length ?xs)
       \<or> (\<exists>T. ?y = Matrix T \<and> T \<noteq> [] \<and> (\<forall>c\<in>set T. length c = length ?xs))"
    using scale_table_shape[OF loadtxt_abscissa_ordinate[OF a0 o0 len], of ordinateScale] by simp
  from interp1d_init_ok[OF this len'] obtain Y where
    init: "interp1d_init (Vector ?xs) ?y = Inr (?xs, Y)" by blast
  have ne: "?xs \<noteq> []" using len by auto
  from check_bounds_outside[OF ne out]
  have "interp1d (Vector ?xs) ?y x_new = Inl (ValueError ''A value in x_new is below the interpolation range.'')
      \<or> interp1d (Vector ?xs) ?y x_new = Inl (ValueError ''A value in x_new is above the interpolation range.'')"
    by (auto simp: interp1d_def init)
  then show ?thesis
    by (auto simp: loadColumnTextFile_def load_interpValue_def a0 o0 sx)
qed

theorem loadColumnTextFile_out_of_domain_witness:
  "loadColumnTextFile float_of_digits (single_file ''d.txt'' ''0 1 4\<newline>1 2 8\<newline>2 3 6\<newline>'') ''d.txt''
       [1] None 0 0 None 1 1 (Some [1, 5 / 2])
     = Inl (ValueError ''A value in x_new is below the interpolation range.'')
   \<or> loadColumnTextFile float_of_digits (single_file ''d.txt'' ''0 1 4\<newline>1 2 8\<newline>2 3 6\<newline>'') ''d.txt''
       [1] None 0 0 None 1 1 (Some [1, 5 / 2])
     = Inl (ValueError ''A value in x_new is above the interpolation range.'')"
proof -
  let ?fs = "single_file ''d.txt'' ''0 1 4\<newline>1 2 8\<newline>2 3 6\<newline>''"
  have h1: "loadtxt float_of_digits ?fs ''d.txt'' None None 0 [0] True = Inr (Vector [0, 1, 2])"
    by code_simp
  have h2: "loadtxt float_of_digits ?fs ''d.txt'' None None 0 [1] True = Inr (Vector [1, 2, 3])"
    by code_simp
  have h3: "2 \<le> length [0, 1, 2 :: rat]" by simp
  have h4: "\<exists>t\<in>set [1, 5 / 2 :: rat]. t < Min (set (map ((*) 1) [0, 1, 2]))
                            \<or> Max (set (map ((*) 1) [0, 1, 2])) < t"
    by (rule bexI[of _ "5 / 2"]) simp_all
  show ?thesis
    by (rule loadColumnTextFile_out_of_domain [OF h1 h2 h3 h4])
qed

text \<open>
  The claim C5 as stated fails. With two ordinate columns \<open>[1, 2]\<close> and \<open>[4, 8]\<close> the
  maximum along axis 0 of the unpacked array is taken across the columns, sample by
  sample, so the first column becomes \<open>[1/4, 1/4]\<close>: its maximum is not 1. And a
  column of zeros is divided by its zero maximum like any other: there is no guard.
\<close>

theorem loadColumnTextFile_normalize_counterexample:
  "loadColumnTextFile float_of_digits (single_file ''d.txt'' ''0 1 4\<newline>1 2 8\<newline>'') ''d.txt''
       [1, 2] None 1 0 None 1 1 None
     = Inr (Finite (Matrix [[1 / 4, 1], [1 / 4, 1]]))
   \<and> loadColumnTextFile float_of_digits (single_file ''d.txt'' ''0 0\<newline>1 0\<newline>'') ''d.txt''
       [1] None 1 0 None 1 1 None
     = Inr (NonFinite [2, 1])"
  by code_simp

lemma reshape_T_single_column:
  "reshape_T (Suc 0) (Finite (Vector v)) = Inr (Finite (Matrix (map (\<lambda>y. [y]) v)))"
proof -
  have "map (\<lambda>i. [v ! i]) [0..<length v] = map (\<lambda>y. [y]) (map ((!) v) [0..<length v])"
    by (simp only: map_map comp_def)
  also have "\<dots> = map (\<lambda>y. [y]) v"
    by (simp only: map_nth)
  finally have m: "map (\<lambda>i. [v ! i]) [0..<length v] = map (\<lambda>y. [y]) v" .
  have "reshape_T (Suc 0) (Finite (Vector v))
          = Inr (Finite (Matrix (map (\<lambda>i. [v ! i]) [0..<length v])))"
    by (simp add: reshape_T_def reshape_T_shape_def flatten_def)
  with m show ?thesis by (simp only:)
qed

lemma Max_divided:
  fixes ys :: "rat list"
  assumes "ys \<noteq> []" and "0 < Max (set ys)"
  shows "Max (set (map (\<lambda>y. y / Max (set ys)) ys)) = 1"
proof (rule Max_eqI)
  let ?m = "Max (set ys)"
  show "finite (set (map (\<lambda>y. y / ?m) ys))" by simp
  show "y \<le> 1" if "y \<in> set (map (\<lambda>y. y / ?m) ys)" for y
  proof -
    from that obtain z where z: "z \<in> set ys" and y: "y = z / ?m" by auto
    from z have "z \<le> ?m" by simp
    with assms(2) y show ?thesis by (simp add: divide_le_eq_1)
  qed
  have "?m \<in> set ys" using assms(1) by (intro Max_in) simp_all
  then have "?m / ?m \<in> (\<lambda>y. y / ?m) ` set ys" by (rule imageI)
  moreover have "?m / ?m = 1" using assms(2) by simp
  ultimately show "1 \<in> set (map (\<lambda>y. y / ?m) ys)" by (simp only: set_map)
qed

text \<open>
  Claim C5, amended. With normalization requested and a single ordinate column (after
  scaling, and interpolation if any): every value is divided by the maximum of the
  column when that is not zero, and the maximum of the column is then 1 when it was
  positive; a zero maximum is not guarded, the division by zero is carried out and the
  call returns an array with entries that are not finite, without raising.
\<close>

theorem loadColumnTextFile_normalize_single_column:
  assumes iv: "load_interpValue conv fs filename loadCol comment skiprows delimiter
                 abscissaScale ordinateScale abscissaOut = Inr (Finite (Vector ys))"
    and one: "length loadCol = 1" and nz: "normalize' \<noteq> 0" and ne: "ys \<noteq> []"
  shows "(Max (set ys) \<noteq> 0 \<longrightarrow>
            loadColumnTextFile conv fs filename loadCol comment normalize' skiprows delimiter
                abscissaScale ordinateScale abscissaOut
              = Inr (Finite (Matrix (map (\<lambda>y. [y / Max (set ys)]) ys))))
       \<and> (0 < Max (set ys) \<longrightarrow> Max (set (map (\<lambda>y. y / Max (set ys)) ys)) = 1)
       \<and> (Max (set ys) = 0 \<longrightarrow>
            loadColumnTextFile conv fs filename loadCol comment normalize' skiprows delimiter
                abscissaScale ordinateScale abscissaOut
              = Inr (NonFinite [length ys, 1]))"
proof -
  have mx: "py_max ys = Inr (Max (set ys))" using ne by (rule py_max_Max)
  have a: "loadColumnTextFile conv fs filename loadCol comment normalize' skiprows delimiter
                abscissaScale ordinateScale abscissaOut
              = Inr (Finite (Matrix (map (\<lambda>y. [y / Max (set ys)]) ys)))"
    if "Max (set ys) \<noteq> 0"
  proof -
    have "divide_by_max (Vector ys) = Inr (Finite (Vector (map (\<lambda>y. y / Max (set ys)) ys)))"
      using that by (simp add: divide_by_max_def mx)
    then show ?thesis
      using nz by (simp add: loadColumnTextFile_def iv one reshape_T_single_column comp_def)
  qed
  have b: "Max (set (map (\<lambda>y. y / Max (set ys)) ys)) = 1" if "0 < Max (set ys)"
    using ne that by (rule Max_divided)
  have c: "loadColumnTextFile conv fs filename loadCol comment normalize' skiprows delimiter
                abscissaScale ordinateScale abscissaOut
              = Inr (NonFinite [length ys, 1])"
    if "Max (set ys) = 0"
  proof -
    have "divide_by_max (Vector ys) = Inr (NonFinite [length ys])"
      using that by (simp add: divide_by_max_def mx)
    then show ?thesis
      using nz by (simp add: loadColumnTextFile_def iv one reshape_T_def reshape_T_shape_def)
  qed
  from a b c show ?thesis by blast
qed

theorem loadColumnTextFile_normalize_single_column_witness:
  "loadColumnTextFile float_of_digits (single_file ''d.txt'' ''0 1 4\<newline>1 2 8\<newline>2 3 6\<newline>'') ''d.txt''
       [2] None 1 0 None 1 1 None
     = Inr (Finite (Matrix [[1 / 2], [1], [3 / 4]]))
   \<and> Max (set [1 / 2, 1, 3 / 4 :: rat]) = 1
   \<and> loadColumnTextFile float_of_digits (single_file ''d.txt'' ''0 0\<newline>1 0\<newline>'') ''d.txt''
       [1] None 1 0 None 1 1 None
     = Inr (NonFinite [2, 1])"
proof -
  let ?fs = "single_file ''d.txt'' ''0 1 4\<newline>1 2 8\<newline>2 3 6\<newline>''"
  let ?gs = "single_file ''d.txt'' ''0 0\<newline>1 0\<newline>''"
  have h1: "load_interpValue float_of_digits ?fs ''d.txt'' [2] None 0 None 1 1 None
              = Inr (Finite (Vector [4, 8, 6]))"
    by code_simp
  have g1: "load_interpValue float_of_digits ?gs ''d.txt'' [1] None 0 None 1 1 None
              = Inr (Finite (Vector [0, 0]))"
    by code_simp
  have h2: "length [2 :: int] = 1" "(1 :: int) \<noteq> 0" "[4, 8, 6 :: rat] \<noteq> []" by simp_all
  have g2: "length [1 :: int] = 1" "(1 :: int) \<noteq> 0" "[0, 0 :: rat] \<noteq> []" by simp_all
  show ?thesis
    using loadColumnTextFile_normalize_single_column [OF h1 h2]
          loadColumnTextFile_normalize_single_column [OF g1 g2]
    by simp
qed

subsection \<open>listFiles\<close>

inductive_cases never_E: "denotes NoString w"
inductive_cases eps_E: "denotes EmptyString w"
inductive_cases chr_E: "denotes (Chr c) w"
inductive_cases any_E: "denotes AnyChar w"
inductive_cases alt_E: "denotes (Alt r s) w"
inductive_cases seq_E: "denotes (Seq r s) w"

lemma star_nonempty_split:
  "denotes q w \<Longrightarrow> q = Star r \<Longrightarrow> w = a # t
     \<Longrightarrow> \<exists>u v. t = u @ v \<and> denotes r (a # u) \<and> denotes (Star r) v"
proof (induction arbitrary: t rule: denotes.induct)
  case (d_star r' u v)
  then have r': "r' = r" by simp
  show ?case
  proof (cases u)
    case Nil
    with d_star show ?thesis by simp
  next
    case (Cons b u')
    with d_star.prems have "b = a" "t = u' @ v" by simp_all
    with d_star.hyps r' Cons show ?thesis by blast
  qed
qed simp_all

lemma nullable_denotes: "nullable r \<longleftrightarrow> denotes r []"
proof (induction r)
  case NoString
  show ?case by (auto elim: never_E)
next
  case EmptyString
  show ?case by (simp add: d_eps)
next
  case (Chr c)
  show ?case by (auto elim: chr_E)
next
  case AnyChar
  show ?case by (auto elim: any_E)
next
  case (Alt r s)
  then show ?case by (auto intro: d_altl d_altr elim: alt_E)
next
  case (Seq r s)
  have "denotes (Seq r s) [] \<longleftrightarrow> denotes r [] \<and> denotes s []"
  proof
    assume "denotes (Seq r s) []"
    then show "denotes r [] \<and> denotes s []" by (rule seq_E) simp
  next
    assume "denotes r [] \<and> denotes s []"
    then have "denotes (Seq r s) ([] @ [])" by (intro d_seq) simp_all
    then show "denotes (Seq r s) []" by simp
  qed
  with Seq show ?case by simp
next
  case (Star r)
  show ?case by (simp add: d_star0)
qed

lemma deriv_denotes: "denotes (deriv a r) t \<longleftrightarrow> denotes r (a # t)"
proof (induction r arbitrary: t)
  case NoString
  show ?case by (auto elim: never_E)
next
  case EmptyString
  show ?case by (auto elim: never_E eps_E)
next
  case (Chr c)
  show ?case by (auto elim: never_E eps_E chr_E intro: d_eps d_chr)
next
  case AnyChar
  show ?case by (auto elim: never_E eps_E any_E intro: d_eps d_any)
next
  case (Alt r s)
  then show ?case by (auto intro: d_altl d_altr elim: alt_E)
next
  case (Seq r s)
  have split: "denotes (Seq r s) (a # t) \<longleftrightarrow>
      (\<exists>u v. t = u @ v \<and> denotes r (a # u) \<and> denotes s v) \<or> (denotes r [] \<and> denotes s (a # t))"
  proof
    assume "denotes (Seq r s) (a # t)"
    then obtain u v where uv: "a # t = u @ v" and ru: "denotes r u" and sv: "denotes s v"
      by (rule seq_E)
    show "(\<exists>u v. t = u @ v \<and> denotes r (a # u) \<and> denotes s v) \<or> (denotes r [] \<and> denotes s (a # t))"
    proof (cases u)
      case Nil
      with uv ru sv show ?thesis by simp
    next
      case (Cons b u')
      with uv have "b = a" "t = u' @ v" by simp_all
      with Cons ru sv show ?thesis by blast
    qed
  next
    assume "(\<exists>u v. t = u @ v \<and> denotes r (a # u) \<and> denotes s v) \<or> (denotes r [] \<and> denotes s (a # t))"
    then show "denotes (Seq r s) (a # t)"
    proof
      assume "\<exists>u v. t = u @ v \<and> denotes r (a # u) \<and> denotes s v"
      then obtain u v where "t = u @ v" "denotes r (a # u)" "denotes s v" by blast
      then show ?thesis using d_seq[of r "a # u" s v] by simp
    next
      assume "denotes r [] \<and> denotes s (a # t)"
      then show ?thesis using d_seq[of r "[]" s "a # t"] by simp
    qed
  qed
  have left: "denotes (Seq (deriv a r) s) t \<longleftrightarrow> (\<exists>u v. t = u @ v \<and> denotes r (a # u) \<and> denotes s v)"
  proof
    assume "denotes (Seq (deriv a r) s) t"
    then obtain u v where "t = u @ v" "denotes (deriv a r) u" "denotes s v" by (rule seq_E)
    with Seq.IH(1) show "\<exists>u v. t = u @ v \<and> denotes r (a # u) \<and> denotes s v" by blast
  next
    assume "\<exists>u v. t = u @ v \<and> denotes r (a # u) \<and> denotes s v"
    then obtain u v where "t = u @ v" "denotes r (a # u)" "denotes s v" by blast
    with Seq.IH(1) show "denotes (Seq (deriv a r) s) t" using d_seq[of "deriv a r" u s v] by simp
  qed
  show ?case
  proof (cases "nullable r")
    case True
    then have "denotes r []" by (simp add: nullable_denotes)
    have "denotes (deriv a (Seq r s)) t \<longleftrightarrow> denotes (Seq (deriv a r) s) t \<or> denotes (deriv a s) t"
      using True by (auto intro: d_altl d_altr elim: alt_E)
    with left split Seq.IH(2) \<open>denotes r []\<close> show ?thesis by simp
  next
    case False
    then have "\<not> denotes r []" by (simp add: nullable_denotes)
    with left split False show ?thesis by simp
  qed
next
  case (Star r)
  show ?case
  proof
    assume "denotes (deriv a (Star r)) t"
    then have "denotes (Seq (deriv a r) (Star r)) t" by simp
    then obtain u v where "t = u @ v" "denotes (deriv a r) u" "denotes (Star r) v" by (rule seq_E)
    with Star.IH show "denotes (Star r) (a # t)" using d_star[of r "a # u" v] by simp
  next
    assume "denotes (Star r) (a # t)"
    from star_nonempty_split[OF this refl refl]
    obtain u v where "t = u @ v" "denotes r (a # u)" "denotes (Star r) v" by blast
    with Star.IH show "denotes (deriv a (Star r)) t" using d_seq[of "deriv a r" u "Star r" v] by simp
  qed
qed

lemma re_fullmatch_denotes: "re_fullmatch r s \<longleftrightarrow> denotes r s"
  unfolding re_fullmatch_def
  by (induction s arbitrary: r) (simp_all add: nullable_denotes deriv_denotes)

lemma re_search_denotes:
  "re_search r s \<longleftrightarrow> (\<exists>pre mid post. s = pre @ mid @ post \<and> denotes r mid)"
proof
  assume "re_search r s"
  then obtain x where "sublist x s" and "denotes r x"
    by (auto simp: re_search_def list_ex_iff re_fullmatch_denotes)
  then show "\<exists>pre mid post. s = pre @ mid @ post \<and> denotes r mid"
    unfolding sublist_def by blast
next
  assume "\<exists>pre mid post. s = pre @ mid @ post \<and> denotes r mid"
  then obtain pre mid post where s: "s = pre @ mid @ post" and d: "denotes r mid" by blast
  from s have "sublist mid s" unfolding sublist_def by blast
  with d show "re_search r s"
    by (auto simp: re_search_def list_ex_iff re_fullmatch_denotes)
qed


declare walk.simps [simp del]

lemma match_patterns_regex:
  assumes "\<forall>p\<in>set pats. \<exists>r. re_compile p = Inr r"
  shows "match_patterns re_compile fnmatch True name pats
           = Inr (\<exists>p\<in>set pats. \<exists>r. re_compile p = Inr r \<and> re_search r name)"
  using assms
proof (induction pats)
  case Nil
  show ?case by simp
next
  case (Cons p pats)
  then obtain r where r: "re_compile p = Inr r" by auto
  from Cons have IH: "match_patterns re_compile fnmatch True name pats
           = Inr (\<exists>p\<in>set pats. \<exists>r. re_compile p = Inr r \<and> re_search r name)" by simp
  show ?case by (cases "re_search r name") (simp_all add: r IH)
qed

lemma match_patterns_total:
  assumes "\<forall>p\<in>set pats. \<exists>r. re_compile p = Inr r"
  shows "match_patterns re_compile fnmatch useRegex name pats = Inr True
       \<or> match_patterns re_compile fnmatch useRegex name pats = Inr False"
  using assms
proof (induction pats)
  case Nil
  show ?case by simp
next
  case (Cons p pats)
  then obtain r where r: "re_compile p = Inr r" by auto
  from Cons have "match_patterns re_compile fnmatch useRegex name pats = Inr True
       \<or> match_patterns re_compile fnmatch useRegex name pats = Inr False" by simp
  then show ?case by (auto simp: r)
qed

lemma visit_results:
  assumes "\<forall>p\<in>set (pattern_list arg). \<exists>r. re_compile p = Inr r"
  shows "visit re_compile fnmatch normpath useRegex arg dirname files
           = Inr (arg\<lparr>results := results arg @
                    map (\<lambda>e. normpath (path_join dirname (node_name e)))
                      (filter (\<lambda>e. (return_folders arg \<noteq> 0 \<or> is_file e)
                                 \<and> match_patterns re_compile fnmatch useRegex (node_name e)
                                      (pattern_list arg) = Inr True) files)\<rparr>)"
  using assms
proof (induction files arbitrary: arg)
  case Nil
  show ?case by simp
next
  case (Cons entry files)
  from match_patterns_total[OF Cons.prems] obtain b where
    b: "match_patterns re_compile fnmatch useRegex (node_name entry) (pattern_list arg) = Inr b"
    by metis
  let ?arg' = "arg\<lparr>results := results arg @ [normpath (path_join dirname (node_name entry))]\<rparr>"
  have p': "\<forall>p\<in>set (pattern_list ?arg'). \<exists>r. re_compile p = Inr r" using Cons.prems by simp
  show ?case
  proof (cases "(return_folders arg \<noteq> 0 \<or> is_file entry) \<and> b")
    case True
    then show ?thesis
      using Cons.IH[OF p'] b by (simp add: Let_def)
  next
    case False
    then show ?thesis
      using Cons.IH[OF Cons.prems] b by (auto simp: Let_def)
  qed
qed

lemma walk_grows:
  "(\<forall>p\<in>set (pattern_list arg). \<exists>r. re_compile p = Inr r) \<Longrightarrow>
     \<exists>arg' a1. visit re_compile fnmatch normpath useRegex arg dirname names = Inr a1
        \<and> walk re_compile fnmatch normpath useRegex arg dirname names = Inr arg'
        \<and> pattern_list arg' = pattern_list arg
        \<and> set (results a1) \<subseteq> set (results arg')"
  and walk_entries_grows:
  "(\<forall>p\<in>set (pattern_list arg). \<exists>r. re_compile p = Inr r) \<Longrightarrow>
     \<exists>arg'. walk_entries re_compile fnmatch normpath useRegex arg dirname names = Inr arg'
        \<and> pattern_list arg' = pattern_list arg
        \<and> set (results arg) \<subseteq> set (results arg')"
proof (induction re_compile fnmatch normpath useRegex arg dirname names
         and re_compile fnmatch normpath useRegex arg dirname names
       rule: walk_walk_entries.induct)
  case (1 re_compile fnmatch normpath useRegex arg dirname names)
  let ?a1 = "arg\<lparr>results := results arg @
                    map (\<lambda>e. normpath (path_join dirname (node_name e)))
                      (filter (\<lambda>e. (return_folders arg \<noteq> 0 \<or> is_file e)
                                 \<and> match_patterns re_compile fnmatch useRegex (node_name e)
                                      (pattern_list arg) = Inr True) names)\<rparr>"
  have v: "visit re_compile fnmatch normpath useRegex arg dirname names = Inr ?a1"
    by (rule visit_results[OF "1.prems"])
  show ?case
  proof (cases "recurse ?a1 = 0")
    case True
    then show ?thesis by (simp add: v walk.simps)
  next
    case False
    have p1: "\<forall>p\<in>set (pattern_list ?a1). \<exists>r. re_compile p = Inr r" using "1.prems" by simp
    from "1.IH"[OF v False p1] obtain arg' where
      "walk_entries re_compile fnmatch normpath useRegex ?a1 dirname names = Inr arg'"
      "pattern_list arg' = pattern_list ?a1" "set (results ?a1) \<subseteq> set (results arg')"
      by blast
    with False show ?thesis by (simp add: v walk.simps)
  qed
next
  case (2 re_compile fnmatch normpath useRegex arg dirname)
  show ?case by simp
next
  case (3 re_compile fnmatch normpath useRegex arg dirname name rest)
  then show ?case by simp
next
  case (4 re_compile fnmatch normpath useRegex arg dirname name entries rest)
  from "4.IH"(1)[OF "4.prems"] obtain a1 a0 where
    v0: "visit re_compile fnmatch normpath useRegex arg (path_join dirname name) entries = Inr a0"
    and w: "walk re_compile fnmatch normpath useRegex arg (path_join dirname name) entries = Inr a1"
    and pl: "pattern_list a1 = pattern_list arg"
    and sub: "set (results a0) \<subseteq> set (results a1)"
    by blast
  have "set (results arg) \<subseteq> set (results a0)"
    using v0 by (simp add: visit_results[OF "4.prems"]) auto
  with sub have s1: "set (results arg) \<subseteq> set (results a1)" by blast
  have p1: "\<forall>p\<in>set (pattern_list a1). \<exists>r. re_compile p = Inr r" using "4.prems" pl by simp
  from "4.IH"(2)[OF w p1] obtain arg' where
    "walk_entries re_compile fnmatch normpath useRegex a1 dirname rest = Inr arg'"
    "pattern_list arg' = pattern_list a1" "set (results a1) \<subseteq> set (results arg')"
    by blast
  with s1 pl show ?case by (auto simp: w)
qed

text \<open>
  Claim C8. In regex mode, an entry (a file, or any entry when folders are returned)
  whose base name contains, at any position, a string that one of the patterns
  matches is appended to the results: by \<open>visit\<close> in whatever directory it is called
  for, and so by \<open>listFiles\<close> for the entries of the root directory. The patterns are
  assumed to compile. The witness is the pattern \<^verbatim>\<open>py\<close> and the name
  \<^verbatim>\<open>ryfiles.py\<close>, which the pattern does not match as a whole.
\<close>

theorem listFiles_regex_search:
  assumes entry: "entry \<in> set names"
    and kind: "return_folders' \<noteq> 0 \<or> is_file entry"
    and compile: "\<forall>p\<in>set (split_on (CHR '';'') patterns). \<exists>r. re_compile p = Inr r"
    and pat: "pattern \<in> set (split_on (CHR '';'') patterns)" and r: "re_compile pattern = Inr regex"
    and found: "node_name entry = before @ mid @ after" "denotes regex mid"
  shows "(\<exists>arg'. visit re_compile fnmatch normpath True
                   \<lparr>recurse = recurse', pattern_list = split_on (CHR '';'') patterns,
                    return_folders = return_folders', results = so_far\<rparr> dirname names = Inr arg'
                \<and> normpath (path_join dirname (node_name entry)) \<in> set (results arg'))
       \<and> (\<exists>res. listFiles re_compile fnmatch normpath (Some names) root' patterns recurse'
                   return_folders' True = Inr res
                \<and> normpath (path_join root' (node_name entry)) \<in> set res)"
proof -
  let ?arg = "\<lambda>rs. \<lparr>recurse = recurse', pattern_list = split_on (CHR '';'') patterns,
              return_folders = return_folders', results = rs\<rparr>"
  have c: "\<forall>p\<in>set (pattern_list (?arg rs)). \<exists>r. re_compile p = Inr r" for rs
    using compile by simp
  have s: "re_search regex (node_name entry)"
    using found by (auto simp: re_search_denotes)
  have m: "match_patterns re_compile fnmatch True (node_name entry) (pattern_list (?arg rs)) = Inr True"
    for rs
    using match_patterns_regex[OF c[of rs], where fnmatch = fnmatch and name = "node_name entry"]
      pat r s by auto
  have vis: "\<exists>arg'. visit re_compile fnmatch normpath True (?arg rs) d names = Inr arg'
                \<and> normpath (path_join d (node_name entry)) \<in> set (results arg')" for rs d
    using entry kind m[of rs] by (simp add: visit_results[OF c])
  from walk_grows[OF c[of "[]"], where fnmatch = fnmatch and normpath = normpath
                     and useRegex = True and dirname = root' and names = names]
  obtain arg' a1 where
    v: "visit re_compile fnmatch normpath True (?arg []) root' names = Inr a1"
    and w: "walk re_compile fnmatch normpath True (?arg []) root' names = Inr arg'"
    and sub: "set (results a1) \<subseteq> set (results arg')"
    by blast
  from vis[of "[]" root'] v have "normpath (path_join root' (node_name entry)) \<in> set (results a1)"
    by simp
  with sub have "normpath (path_join root' (node_name entry)) \<in> set (results arg')" by blast
  then have "\<exists>res. listFiles re_compile fnmatch normpath (Some names) root' patterns recurse'
                   return_folders' True = Inr res
                \<and> normpath (path_join root' (node_name entry)) \<in> set res"
    by (simp add: listFiles_def w)
  with vis[of so_far dirname] show ?thesis by blast
qed

theorem listFiles_regex_search_witness:
  "listFiles compile_literal (\<lambda>name pattern. False) id
       (Some [File ''ryfiles.py'', File ''readme.txt'']) ''.'' ''py'' 0 0 True
     = Inr [''./ryfiles.py'']
   \<and> denotes (Seq (Chr CHR ''p'') (Seq (Chr CHR ''y'') EmptyString)) ''py''
   \<and> \<not> re_fullmatch (Seq (Chr CHR ''p'') (Seq (Chr CHR ''y'') EmptyString)) ''ryfiles.py''"
proof -
  let ?names = "[File ''ryfiles.py'', File ''readme.txt'']"
  let ?rx = "Seq (Chr CHR ''p'') (Seq (Chr CHR ''y'') EmptyString)"
  have h2: "File ''ryfiles.py'' \<in> set ?names" by simp
  have h3: "(0::int) \<noteq> 0 \<or> is_file (File ''ryfiles.py'')" by simp
  have h4: "\<forall>p\<in>set (split_on (CHR '';'') ''py''). \<exists>r. compile_literal p = Inr r"
    by (simp add: compile_literal_def)
  have h5: "''py'' \<in> set (split_on (CHR '';'') ''py'')" by simp
  have h6: "compile_literal ''py'' = Inr ?rx" by (simp add: compile_literal_def)
  have h7: "node_name (File ''ryfiles.py'') = ''ryfiles.'' @ ''py'' @ []" by simp
  have h8: "denotes ?rx ''py''"
    using d_seq[OF d_chr[of "CHR ''p''"] d_seq[OF d_chr[of "CHR ''y''"] d_eps]] by simp
  have ev: "listFiles compile_literal (\<lambda>name pattern. False) id (Some ?names) ''.'' ''py'' 0 0 True
              = Inr [''./ryfiles.py'']"
    by code_simp
  have nf: "\<not> re_fullmatch ?rx ''ryfiles.py''" by code_simp
  from listFiles_regex_search [OF h2 h3 h4 h5 h6 h7 h8, where fnmatch = "\<lambda>name pattern. False"
         and normpath = id and recurse' = 0 and so_far = "[]" and dirname = "''.''" and root' = "''.''"]
  have "\<exists>res. listFiles compile_literal (\<lambda>name pattern. False) id (Some ?names) ''.'' ''py'' 0 0 True
                 = Inr res
               \<and> id (path_join ''.'' (node_name (File ''ryfiles.py''))) \<in> set res"
    by blast
  with ev h8 nf show ?thesis by simp
qed

end
